theory Spec2Isabelle
  imports Complex_Main "HOL-Library.Word"
begin

unbundle bit_operations_syntax

section \<open>Machine integers and byte strings\<close>

text \<open>
  Go's \<^verbatim>\<open>uint16\<close>, \<^verbatim>\<open>uint32\<close> and \<^verbatim>\<open>uint64\<close> are words of that width. A Go
  \<^verbatim>\<open>string\<close> is an immutable sequence of bytes and \<^verbatim>\<open>[]byte(s)\<close>, \<^verbatim>\<open>string(b)\<close>
  copy it unchanged, so both are byte lists here. The fields of META of type \<^verbatim>\<open>int64\<close>
  and \<^verbatim>\<open>int\<close> are 64-bit words, as the conversions to \<^verbatim>\<open>uint64\<close> and \<^verbatim>\<open>uint16\<close>
  read them.
\<close>

type_synonym byte = "8 word"
type_synonym u16 = "16 word"
type_synonym u32 = "32 word"
type_synonym u64 = "64 word"
type_synonym bytes = "byte list"

definition bytes_of :: "string \<Rightarrow> bytes" where
  "bytes_of s = map of_char s"

text \<open>\<^verbatim>\<open>encoding/binary.BigEndian\<close>: the most significant byte comes first.\<close>

definition PutUint16 :: "u16 \<Rightarrow> bytes" where
  "PutUint16 v = [ucast (drop_bit 8 v), ucast v]"

definition PutUint32 :: "u32 \<Rightarrow> bytes" where
  "PutUint32 v = [ucast (drop_bit 24 v), ucast (drop_bit 16 v), ucast (drop_bit 8 v), ucast v]"

definition PutUint64 :: "u64 \<Rightarrow> bytes" where
  "PutUint64 v =
     [ucast (drop_bit 56 v), ucast (drop_bit 48 v), ucast (drop_bit 40 v), ucast (drop_bit 32 v),
      ucast (drop_bit 24 v), ucast (drop_bit 16 v), ucast (drop_bit 8 v), ucast v]"

definition Uint16 :: "bytes \<Rightarrow> u16" where
  "Uint16 b = ucast (b ! 1) OR push_bit 8 (ucast (b ! 0))"

definition Uint32 :: "bytes \<Rightarrow> u32" where
  "Uint32 b = ucast (b ! 3) OR push_bit 8 (ucast (b ! 2)) OR push_bit 16 (ucast (b ! 1))
     OR push_bit 24 (ucast (b ! 0))"

definition Uint64 :: "bytes \<Rightarrow> u64" where
  "Uint64 b = ucast (b ! 7) OR push_bit 8 (ucast (b ! 6)) OR push_bit 16 (ucast (b ! 5))
     OR push_bit 24 (ucast (b ! 4)) OR push_bit 32 (ucast (b ! 3)) OR push_bit 40 (ucast (b ! 2))
     OR push_bit 48 (ucast (b ! 1)) OR push_bit 56 (ucast (b ! 0))"

text \<open>The slice expression \<^verbatim>\<open>b[i:j]\<close> on a buffer whose length was checked before.\<close>

definition sub :: "bytes \<Rightarrow> nat \<Rightarrow> nat \<Rightarrow> bytes" where
  "sub b i j = take (j - i) (drop i b)"

section \<open>Frame codec (package protocol)\<close>

text \<open>Every \<^verbatim>\<open>errors.New\<close> of the codec is one constructor.\<close>

datatype error =
    ShortHeaderBuffer | InvalidHeader
  | InvalidCtrlHeader | ShortCtrlPayload
  | ShortMETA | ShortMETA2 | ShortERR | ShortERR2
  | ShortNACK | ShortNACK2 | ShortLST | ShortLST2 | ShortLST3
  | UnknownCtrlType

definition ProtocolVersion :: byte where
  "ProtocolVersion = 1"

definition ChunkSize :: nat where
  "ChunkSize = 1024"

record DataHeader =
  hSeq :: u32
  hTotal :: u32
  hSize :: u16
  hCRC32 :: u32

definition dataHeaderSize :: nat where
  "dataHeaderSize = 2 + 1 + 1 + 4 + 4 + 2 + 4"

definition PackHeader :: "DataHeader \<Rightarrow> bytes" where
  "PackHeader h =
     [0x55, 0x44, ProtocolVersion, 0] @ PutUint32 (hSeq h) @ PutUint32 (hTotal h)
       @ PutUint16 (hSize h) @ PutUint32 (hCRC32 h)"

definition UnpackHeader :: "bytes \<Rightarrow> error + DataHeader" where
  "UnpackHeader b =
     (if length b < dataHeaderSize then Inl ShortHeaderBuffer
      else if b ! 0 \<noteq> 0x55 \<or> b ! 1 \<noteq> 0x44 \<or> b ! 2 \<noteq> ProtocolVersion then Inl InvalidHeader
      else Inr \<lparr>hSeq = Uint32 (sub b 4 8), hTotal = Uint32 (sub b 8 12),
                hSize = Uint16 (sub b 12 14), hCRC32 = Uint32 (sub b 14 18)\<rparr>)"

definition HeaderSize :: nat where
  "HeaderSize = dataHeaderSize"

subsection \<open>Control frames\<close>

definition TypeREQ :: string where "TypeREQ = ''REQ''"
definition TypeMETA :: string where "TypeMETA = ''META''"
definition TypeERR :: string where "TypeERR = ''ERR''"
definition TypeEOF :: string where "TypeEOF = ''EOF''"
definition TypeNACK :: string where "TypeNACK = ''NACK''"
definition TypeLIST :: string where "TypeLIST = ''LIST''"
definition TypeLST :: string where "TypeLST = ''LST''"

definition ctrlMagic0 :: byte where "ctrlMagic0 = 0x55"
definition ctrlMagic1 :: byte where "ctrlMagic1 = 0x43"

definition ctrlTypeREQ :: byte where "ctrlTypeREQ = 1"
definition ctrlTypeMETA :: byte where "ctrlTypeMETA = 2"
definition ctrlTypeERR :: byte where "ctrlTypeERR = 3"
definition ctrlTypeEOF :: byte where "ctrlTypeEOF = 4"
definition ctrlTypeNACK :: byte where "ctrlTypeNACK = 5"
definition ctrlTypeLIST :: byte where "ctrlTypeLIST = 6"
definition ctrlTypeLST :: byte where "ctrlTypeLST = 7"

text \<open>
  \<open>mSize\<close> is the \<^verbatim>\<open>int64\<close> field Size and \<open>mChunk\<close> the \<^verbatim>\<open>int\<close> field Chunk;
  \<open>mSHA256\<close> is the string of 64 hexadecimal characters.
\<close>

record Meta =
  mFilename :: bytes
  mTotal :: u32
  mSize :: u64
  mSHA256 :: bytes
  mChunk :: u64

text \<open>The values \<^verbatim>\<open>DecodeCtrl\<close> returns in its \<^verbatim>\<open>any\<close>: one constructor for each struct.\<close>

datatype ctrl =
    Req bytes
  | MetaMsg Meta
  | ErrMsg bytes
  | EOFMsg
  | Nack "u32 list"
  | ListMsg
  | Lst "bytes list"

text \<open>\<^verbatim>\<open>uint16(payloadLen)\<close> keeps the low 16 bits of the length, as \<open>of_nat\<close> into a word does.\<close>

definition ctrlHeader :: "byte \<Rightarrow> nat \<Rightarrow> bytes" where
  "ctrlHeader t payloadLen = [ctrlMagic0, ctrlMagic1, ProtocolVersion, t] @ PutUint16 (of_nat payloadLen)"

definition packREQ :: "bytes \<Rightarrow> bytes" where
  "packREQ path = (let p = path; h = ctrlHeader ctrlTypeREQ (length p) in h @ p)"

definition hexval :: "byte \<Rightarrow> byte \<times> bool" where
  "hexval r =
     (if 0x30 \<le> r \<and> r \<le> 0x39 then (r - 0x30, True)
      else if 0x61 \<le> r \<and> r \<le> 0x66 then (r - 0x61 + 10, True)
      else if 0x41 \<le> r \<and> r \<le> 0x46 then (r - 0x41 + 10, True)
      else (0, False))"

text \<open>
  The loop of \<^verbatim>\<open>parseHexSha\<close> over \<open>i\<close>, with the buffer \<open>b\<close> it fills; it returns
  \<open>b\<close> as it is at the first character that is no hexadecimal digit.
\<close>

function parseHexSha_loop :: "bytes \<Rightarrow> nat \<Rightarrow> bytes \<Rightarrow> bytes" where
  "parseHexSha_loop s i b =
     (if i < 32 then
        (let (hi, ok1) = hexval (s ! (i * 2)); (lo, ok2) = hexval (s ! (i * 2 + 1))
         in if \<not> ok1 \<or> \<not> ok2 then b
            else parseHexSha_loop s (i + 1) (b[i := push_bit 4 hi OR lo]))
      else b)"
  by pat_completeness auto
termination
  by (relation "measure (\<lambda>(s, i, b). 32 - i)") auto

definition parseHexSha :: "bytes \<Rightarrow> bytes" where
  "parseHexSha s =
     (let b = replicate 32 0 in
      if length s \<noteq> 64 then b else parseHexSha_loop s 0 b)"

definition hexdigits :: bytes where
  "hexdigits = bytes_of ''0123456789abcdef''"

definition fmtHash :: "bytes \<Rightarrow> bytes" where
  "fmtHash b = concat (map (\<lambda>v. [hexdigits ! unat (drop_bit 4 v), hexdigits ! unat (v AND 0x0f)]) b)"

definition packMETA :: "Meta \<Rightarrow> bytes" where
  "packMETA m =
     (let fn = mFilename m;
          sha = parseHexSha (mSHA256 m);
          payload = PutUint32 (mTotal m) @ PutUint64 (mSize m) @ PutUint16 (ucast (mChunk m))
                      @ PutUint16 (of_nat (length fn)) @ fn @ sha;
          h = ctrlHeader ctrlTypeMETA (length payload)
      in h @ payload)"

definition packERR :: "bytes \<Rightarrow> bytes" where
  "packERR msg =
     (let b = msg;
          payload = PutUint16 1 @ PutUint16 (of_nat (length b)) @ b;
          h = ctrlHeader ctrlTypeERR (length payload)
      in h @ payload)"

definition packEOF :: bytes where
  "packEOF = ctrlHeader ctrlTypeEOF 0"

definition packNACK :: "u32 list \<Rightarrow> bytes" where
  "packNACK missing =
     (let payload = PutUint16 (of_nat (length missing)) @ concat (map PutUint32 missing);
          h = ctrlHeader ctrlTypeNACK (length payload)
      in h @ payload)"

definition packLIST :: bytes where
  "packLIST = ctrlHeader ctrlTypeLIST 0"

definition packLST :: "bytes list \<Rightarrow> bytes" where
  "packLST names =
     (let count = length names;
          payload = PutUint16 (of_nat count)
                      @ concat (map (\<lambda>n. PutUint16 (of_nat (length n)) @ n) names);
          h = ctrlHeader ctrlTypeLST (length payload)
      in h @ payload)"

definition parseCtrl :: "bytes \<Rightarrow> error + (byte \<times> bytes)" where
  "parseCtrl b =
     (if length b < 6 \<or> b ! 0 \<noteq> ctrlMagic0 \<or> b ! 1 \<noteq> ctrlMagic1 \<or> b ! 2 \<noteq> ProtocolVersion
      then Inl InvalidCtrlHeader
      else let t = b ! 3; l = unat (Uint16 (sub b 4 6))
           in if length b < 6 + l then Inl ShortCtrlPayload else Inr (t, sub b 6 (6 + l)))"

definition unpackREQ :: "bytes \<Rightarrow> error + ctrl" where
  "unpackREQ p = Inr (Req p)"

definition unpackMETA :: "bytes \<Rightarrow> error + ctrl" where
  "unpackMETA p =
     (if length p < 4 + 8 + 2 + 2 + 32 then Inl ShortMETA
      else let fnLen = unat (Uint16 (sub p 14 16))
           in if length p < 16 + fnLen + 32 then Inl ShortMETA2
              else Inr (MetaMsg \<lparr>mFilename = sub p 16 (16 + fnLen),
                                  mTotal = Uint32 (sub p 0 4),
                                  mSize = Uint64 (sub p 4 12),
                                  mSHA256 = fmtHash (sub p (16 + fnLen) (16 + fnLen + 32)),
                                  mChunk = ucast (Uint16 (sub p 12 14))\<rparr>))"

definition unpackERR :: "bytes \<Rightarrow> error + ctrl" where
  "unpackERR p =
     (if length p < 4 then Inl ShortERR
      else let ml = unat (Uint16 (sub p 2 4))
           in if length p < 4 + ml then Inl ShortERR2 else Inr (ErrMsg (sub p 4 (4 + ml))))"

definition unpackEOF :: "bytes \<Rightarrow> error + ctrl" where
  "unpackEOF p = Inr EOFMsg"

text \<open>The loop of \<^verbatim>\<open>unpackNACK\<close>: \<open>k\<close> entries are still to be read, \<open>off\<close> is the offset.\<close>

fun unpackNACK_loop :: "nat \<Rightarrow> nat \<Rightarrow> bytes \<Rightarrow> u32 list" where
  "unpackNACK_loop 0 off p = []"
| "unpackNACK_loop (Suc k) off p = Uint32 (sub p off (off + 4)) # unpackNACK_loop k (off + 4) p"

definition unpackNACK :: "bytes \<Rightarrow> error + ctrl" where
  "unpackNACK p =
     (if length p < 2 then Inl ShortNACK
      else let n = unat (Uint16 (sub p 0 2))
           in if length p < 2 + 4 * n then Inl ShortNACK2
              else Inr (Nack (unpackNACK_loop n 2 p)))"

text \<open>The loop of \<^verbatim>\<open>unpackLST\<close>, which stops with an error where a name is cut short.\<close>

fun unpackLST_loop :: "nat \<Rightarrow> nat \<Rightarrow> bytes \<Rightarrow> error + bytes list" where
  "unpackLST_loop 0 off p = Inr []"
| "unpackLST_loop (Suc k) off p =
     (if length p < off + 2 then Inl ShortLST2
      else let l = unat (Uint16 (sub p off (off + 2))); off' = off + 2
           in if length p < off' + l then Inl ShortLST3
              else (case unpackLST_loop k (off' + l) p of
                      Inl e \<Rightarrow> Inl e
                    | Inr names \<Rightarrow> Inr (sub p off' (off' + l) # names)))"

definition unpackLST :: "bytes \<Rightarrow> error + ctrl" where
  "unpackLST p =
     (if length p < 2 then Inl ShortLST
      else let n = unat (Uint16 (sub p 0 2))
           in (case unpackLST_loop n 2 p of Inl e \<Rightarrow> Inl e | Inr names \<Rightarrow> Inr (Lst names)))"

definition CtrlREQ :: "bytes \<Rightarrow> bytes" where "CtrlREQ path = packREQ path"
definition CtrlMETA :: "Meta \<Rightarrow> bytes" where "CtrlMETA m = packMETA m"
definition CtrlERR :: "bytes \<Rightarrow> bytes" where "CtrlERR msg = packERR msg"
definition CtrlEOF :: bytes where "CtrlEOF = packEOF"
definition CtrlNACK :: "u32 list \<Rightarrow> bytes" where "CtrlNACK missing = packNACK missing"
definition CtrlLIST :: bytes where "CtrlLIST = packLIST"
definition CtrlLST :: "bytes list \<Rightarrow> bytes" where "CtrlLST names = packLST names"

text \<open>
  \<^verbatim>\<open>DecodeCtrl\<close> returns the type tag, the value and the error. Every caller drops tag and
  value when the error is set, so a result is either the error or the pair of tag and value.
\<close>

definition tagged :: "string \<Rightarrow> error + ctrl \<Rightarrow> error + (string \<times> ctrl)" where
  "tagged typ r = (case r of Inl e \<Rightarrow> Inl e | Inr v \<Rightarrow> Inr (typ, v))"

definition DecodeCtrl :: "bytes \<Rightarrow> error + (string \<times> ctrl)" where
  "DecodeCtrl b =
     (case parseCtrl b of
        Inl e \<Rightarrow> Inl e
      | Inr (t, p) \<Rightarrow>
          if t = ctrlTypeREQ then tagged TypeREQ (unpackREQ p)
          else if t = ctrlTypeMETA then tagged TypeMETA (unpackMETA p)
          else if t = ctrlTypeERR then tagged TypeERR (unpackERR p)
          else if t = ctrlTypeEOF then tagged TypeEOF (unpackEOF p)
          else if t = ctrlTypeNACK then tagged TypeNACK (unpackNACK p)
          else if t = ctrlTypeLIST then Inr (TypeLIST, ListMsg)
          else if t = ctrlTypeLST then tagged TypeLST (unpackLST p)
          else Inl UnknownCtrlType)"

definition IsCtrl :: "bytes \<Rightarrow> bool" where
  "IsCtrl b = (length b \<ge> 2 \<and> b ! 0 = 0x55 \<and> b ! 1 = 0x43)"

subsection \<open>Checksums\<close>

text \<open>
  \<^verbatim>\<open>CRC32\<close> calls \<^verbatim>\<open>hash/crc32.ChecksumIEEE\<close>: the reflected CRC-32 with polynomial
  \<open>0xEDB88320\<close>, initial value and final complement \<open>0xFFFFFFFF\<close>, one bit at a time.
\<close>

definition crc32_shift :: "u32 \<Rightarrow> u32" where
  "crc32_shift c = (if c AND 1 = 1 then drop_bit 1 c XOR 0xEDB88320 else drop_bit 1 c)"

definition crc32_update :: "u32 \<Rightarrow> byte \<Rightarrow> u32" where
  "crc32_update c b = (crc32_shift ^^ 8) (c XOR ucast b)"

definition ChecksumIEEE :: "bytes \<Rightarrow> u32" where
  "ChecksumIEEE data = NOT (foldl crc32_update (NOT 0) data)"

definition CRC32 :: "bytes \<Rightarrow> u32" where
  "CRC32 data = ChecksumIEEE data"

section \<open>The standard library and the Go runtime\<close>

text \<open>
  The functions of Go's standard library that the program calls and whose code is not
  part of the repository are parameters of the model: the pseudo-random source of
  \<^verbatim>\<open>math/rand\<close> with its state \<open>'g\<close>, SHA-256, and the path and string functions.
  Every theorem holds for all of them.
\<close>

record 'g stdlib =
  rand_NewSource :: "u64 \<Rightarrow> 'g"
  rand_Float64 :: "'g \<Rightarrow> real \<times> 'g"
  sha256_Sum :: "bytes \<Rightarrow> bytes"
  filepath_Clean :: "bytes \<Rightarrow> bytes"
  filepath_Base :: "bytes \<Rightarrow> bytes"
  filepath_Dir :: "bytes \<Rightarrow> bytes"
  filepath_Join :: "bytes \<Rightarrow> bytes \<Rightarrow> bytes"
  strings_TrimSpace :: "bytes \<Rightarrow> bytes"

text \<open>
  \<^verbatim>\<open>SHA256FileChunks\<close> writes the chunks to one hash in order, which hashes their
  concatenation, and prints the digest in hexadecimal.
\<close>

definition SHA256FileChunks :: "'g stdlib \<Rightarrow> bytes list \<Rightarrow> bytes" where
  "SHA256FileChunks L chunks = fmtHash (sha256_Sum L (concat chunks))"

text \<open>
  A \<^verbatim>\<open>float64\<close> with the values that compare specially. \<^verbatim>\<open>NaN\<close> is neither below,
  equal to nor above anything.
\<close>

datatype float64 = NaN | NegInf | Fin real | PosInf

fun f64_lt :: "float64 \<Rightarrow> float64 \<Rightarrow> bool" where
  "f64_lt NaN y = False"
| "f64_lt x NaN = False"
| "f64_lt x NegInf = False"
| "f64_lt NegInf y = True"
| "f64_lt PosInf y = False"
| "f64_lt (Fin a) PosInf = True"
| "f64_lt (Fin a) (Fin b) = (a < b)"

definition f64_le :: "float64 \<Rightarrow> float64 \<Rightarrow> bool" where
  "f64_le x y = (f64_lt x y \<or> (x = y \<and> x \<noteq> NaN))"

text \<open>
  A Go slice is a window on a backing array: \<open>elems\<close> are the \<^verbatim>\<open>len\<close> bytes it shows,
  \<open>spare\<close> the bytes of the array behind them, up to \<^verbatim>\<open>cap\<close>. A slice expression out
  of range panics: \<^verbatim>\<open>b[i:j]\<close> needs \<open>i \<le> j \<le> cap b\<close>, and \<^verbatim>\<open>b[i:]\<close> is
  \<^verbatim>\<open>b[i:len(b)]\<close>.
\<close>

datatype goslice = Slice (elems: bytes) (spare: bytes)

datatype panic = SliceBoundsOutOfRange | NilFunctionCall | TypeAssertionFailed

definition len :: "goslice \<Rightarrow> nat" where
  "len b = length (elems b)"

definition cap :: "goslice \<Rightarrow> nat" where
  "cap b = length (elems b) + length (spare b)"

definition slice_range :: "goslice \<Rightarrow> nat \<Rightarrow> nat \<Rightarrow> panic + goslice" where
  "slice_range b i j =
     (if i \<le> j \<and> j \<le> cap b
      then Inr (Slice (take (j - i) (drop i (elems b @ spare b))) (drop j (elems b @ spare b)))
      else Inl SliceBoundsOutOfRange)"

definition slice_to :: "goslice \<Rightarrow> nat \<Rightarrow> panic + goslice" where
  "slice_to b j = slice_range b 0 j"

definition slice_from :: "goslice \<Rightarrow> nat \<Rightarrow> panic + goslice" where
  "slice_from b i = slice_range b i (len b)"

text \<open>
  \<^verbatim>\<open>buf := make([]byte, n)\<close> followed by a read of the datagram \<open>d\<close> into it and
  \<^verbatim>\<open>buf[:n]\<close>: the datagram is cut at the size of the buffer, the rest of the buffer is
  zero.
\<close>

definition read_into :: "nat \<Rightarrow> bytes \<Rightarrow> goslice" where
  "read_into n d = Slice (take n d) (replicate (n - length d) 0)"

section \<open>Client (package clientudp)\<close>

subsection \<open>Drop policy\<close>

record 'g DropPolicy =
  rate :: float64
  rnd :: 'g
  dropped :: "u32 set"

text \<open>A \<^verbatim>\<open>*DropPolicy\<close> is \<open>None\<close> when it is nil.\<close>

definition NewDrop :: "'g stdlib \<Rightarrow> float64 \<Rightarrow> u64 \<Rightarrow> 'g DropPolicy option" where
  "NewDrop L r seed =
     (if f64_le r (Fin 0) then None
      else Some \<lparr>rate = r, rnd = rand_NewSource L seed, dropped = {}\<rparr>)"

text \<open>\<^verbatim>\<open>ShouldDrop\<close> returns its answer and the policy as the call leaves it.\<close>

definition ShouldDrop :: "'g stdlib \<Rightarrow> 'g DropPolicy option \<Rightarrow> u32 \<Rightarrow> bool \<times> 'g DropPolicy option" where
  "ShouldDrop L p seq =
     (case p of
        None \<Rightarrow> (False, None)
      | Some d \<Rightarrow>
          if f64_le (rate d) (Fin 0) then (False, Some d)
          else if seq \<in> dropped d then (False, Some d)
          else (let (x, g) = rand_Float64 L (rnd d)
                in if f64_lt (Fin x) (rate d)
                   then (True, Some (d\<lparr>rnd := g, dropped := insert seq (dropped d)\<rparr>))
                   else (False, Some (d\<lparr>rnd := g\<rparr>))))"

text \<open>Any sequence of calls on one policy, with the answers in order.\<close>

fun ShouldDrop_calls :: "'g stdlib \<Rightarrow> 'g DropPolicy option \<Rightarrow> u32 list \<Rightarrow> bool list \<times> 'g DropPolicy option" where
  "ShouldDrop_calls L p [] = ([], p)"
| "ShouldDrop_calls L p (s # ss) =
     (let (r, p') = ShouldDrop L p s; (rs, p'') = ShouldDrop_calls L p' ss in (r # rs, p''))"

definition dropped_set :: "'g DropPolicy option \<Rightarrow> u32 set" where
  "dropped_set p = (case p of None \<Rightarrow> {} | Some d \<Rightarrow> dropped d)"

text \<open>How often the call for sequence \<open>s\<close> was answered with true.\<close>

definition drops_of :: "u32 \<Rightarrow> u32 list \<Rightarrow> bool list \<Rightarrow> nat" where
  "drops_of s ss rs = length (filter (\<lambda>(q, r). q = s \<and> r) (zip ss rs))"

subsection \<open>Receive state\<close>

text \<open>
  The calls of the callbacks, in order; a callback that is nil is not called. The text
  of a log line is left out, the values it prints are kept.
\<close>

datatype event =
    LogShortBuffer u32 nat
  | LogPayloadSize u32
  | LogDrop u32
  | LogCRC u32 u32 u32
  | LogStatus u32
  | Progress u64 u64

record Callbacks =
  OnLog :: bool
  OnProgress :: bool

text \<open>
  What one transfer changes while it receives: the policy behind \<^verbatim>\<open>cfg.Drop\<close>, the map
  \<^verbatim>\<open>recv\<close>, the two counters, and the callbacks called so far.
\<close>

record 'g client =
  Drop :: "'g DropPolicy option"
  recv :: "u32 \<rightharpoonup> bytes"
  bytesRecv :: u64
  segsRecv :: u64
  events :: "event list"

definition emit :: "bool \<Rightarrow> event \<Rightarrow> 'g client \<Rightarrow> 'g client" where
  "emit on e st = (if on then st\<lparr>events := events st @ [e]\<rparr> else st)"

definition computeMissing :: "u32 \<Rightarrow> (u32 \<rightharpoonup> bytes) \<Rightarrow> u32 list" where
  "computeMissing n rcv = filter (\<lambda>i. rcv i = None) (map of_nat [0..<unat n])"

definition processPacket ::
  "'g stdlib \<Rightarrow> Callbacks \<Rightarrow> goslice \<Rightarrow> 'g client \<Rightarrow> panic + (bool \<times> 'g client)" where
  "processPacket L cb b st =
     (if IsCtrl (elems b) then
        (case DecodeCtrl (elems b) of
           Inr (typ, v) \<Rightarrow> Inr (typ = TypeEOF, st)
         | Inl e \<Rightarrow> Inr (False, st))
      else
        case slice_to b HeaderSize of
          Inl p \<Rightarrow> Inl p
        | Inr hb \<Rightarrow>
           (case UnpackHeader (elems hb) of
              Inl e \<Rightarrow> Inr (False, st)
            | Inr h \<Rightarrow>
               (case slice_from b HeaderSize of
                  Inl p \<Rightarrow> Inl p
                | Inr payload0 \<Rightarrow>
                   if len b < HeaderSize + unat (hSize h)
                   then Inr (False, emit (OnLog cb) (LogShortBuffer (hSeq h) (len b)) st)
                   else
                     (case slice_range b HeaderSize (HeaderSize + unat (hSize h)) of
                        Inl p \<Rightarrow> Inl p
                      | Inr payload \<Rightarrow>
                         if len payload \<noteq> unat (hSize h)
                         then Inr (False, emit (OnLog cb) (LogPayloadSize (hSeq h)) st)
                         else
                           (let (dropit, p') =
                                  (if Drop st \<noteq> None then ShouldDrop L (Drop st) (hSeq h)
                                   else (False, Drop st));
                                st1 = st\<lparr>Drop := p'\<rparr>
                            in if dropit then Inr (False, emit (OnLog cb) (LogDrop (hSeq h)) st1)
                               else
                                 (let computedCRC32 = CRC32 (elems payload)
                                  in if computedCRC32 \<noteq> hCRC32 h
                                     then Inr (False, emit (OnLog cb)
                                                 (LogCRC (hSeq h) (hCRC32 h) computedCRC32) st1)
                                     else if recv st1 (hSeq h) \<noteq> None then Inr (False, st1)
                                     else
                                       (let st2 = st1\<lparr>recv := (recv st1)(hSeq h \<mapsto> elems payload),
                                                       bytesRecv := bytesRecv st1 + of_nat (len payload),
                                                       segsRecv := segsRecv st1 + 1\<rparr>;
                                            st3 = emit (OnLog cb \<and> hSeq h mod 500 = 0)
                                                    (LogStatus (hSeq h)) st2;
                                            st4 = emit (OnProgress cb)
                                                    (Progress (bytesRecv st3) (segsRecv st3)) st3
                                        in Inr (False, st4))))))))"

subsection \<open>The phases of a transfer\<close>

text \<open>
  The fields of \<^verbatim>\<open>Config\<close> that the transfer reads. Host, Port and Timeout address the
  socket and set its deadlines in real time; the policy behind \<^verbatim>\<open>Drop\<close> is part of the
  state of the client. Go's \<^verbatim>\<open>int\<close> is an integer here: the counters of the loops stay
  far below \<open>2 ^ 63\<close> for every number of retries below \<open>2 ^ 61\<close>.
\<close>

record Config =
  Path :: bytes
  Retries :: int
  OutputPath :: bytes

text \<open>
  What an iteration of a receive loop observes next: the cancel channel is closed, the
  read runs into its deadline, a datagram arrives, or (looked at by the rounds of NACK
  only) the clock passes the deadline of the round. When the list is used up the network
  stays silent: every read times out.
\<close>

datatype obs = Cancel | Timeout | Datagram bytes | Deadline

text \<open>The connected socket: what is still to come, what was written, and whether writes succeed.\<close>

record net =
  inbox :: "obs list"
  sent :: "bytes list"
  write_ok :: bool

datatype client_error =
    WriteFailed
  | Canceled
  | ServerError bytes
  | MetaExhausted
  | NoInitialData
  | NackExhausted
  | Incomplete nat
  | IoError
  | ShaMismatch bytes bytes bytes

text \<open>
  The inner loop of \<^verbatim>\<open>sendREQAndGetMeta\<close>: it reads until META or ERR arrives, the read
  times out or the transfer is cancelled. The log lines of the loops of the three phases
  and the call of \<^verbatim>\<open>OnMeta\<close> change nothing that the phases read, and are left out.
\<close>

datatype meta_wait = GotMeta Meta | GotErr bytes | WaitCanceled | WaitTimeout | WaitPanic

fun awaitMeta :: "obs list \<Rightarrow> meta_wait \<times> obs list" where
  "awaitMeta [] = (WaitTimeout, [])"
| "awaitMeta (Cancel # rest) = (WaitCanceled, rest)"
| "awaitMeta (Timeout # rest) = (WaitTimeout, rest)"
| "awaitMeta (Deadline # rest) = awaitMeta rest"
| "awaitMeta (Datagram d # rest) =
     (let b = take 4096 d
      in if \<not> IsCtrl b then awaitMeta rest
         else (case DecodeCtrl b of
                 Inl e \<Rightarrow> awaitMeta rest
               | Inr (typ, val) \<Rightarrow>
                   if typ = TypeMETA then
                     (case val of MetaMsg m \<Rightarrow> (GotMeta m, rest) | _ \<Rightarrow> (WaitPanic, rest))
                   else if typ = TypeERR then
                     (case val of ErrMsg msg \<Rightarrow> (GotErr msg, rest) | _ \<Rightarrow> (WaitPanic, rest))
                   else awaitMeta rest))"

datatype 'a attempt = Panicked | Failed client_error | Returned 'a

text \<open>The loop \<^verbatim>\<open>for try := 1; try <= attempts; try++\<close>.\<close>

function sendREQ_loop :: "Config \<Rightarrow> int \<Rightarrow> int \<Rightarrow> net \<Rightarrow> Meta attempt \<times> net" where
  "sendREQ_loop cfg try attempts n =
     (if try \<le> attempts then
        (if \<not> write_ok n then (Failed WriteFailed, n)
         else (let n1 = n\<lparr>sent := sent n @ [CtrlREQ (Path cfg)]\<rparr>;
                   w = awaitMeta (inbox n1);
                   n2 = n1\<lparr>inbox := snd w\<rparr>
               in case fst w of
                    GotMeta m \<Rightarrow> (Returned m, n2)
                  | GotErr msg \<Rightarrow> (Failed (ServerError msg), n2)
                  | WaitCanceled \<Rightarrow> (Failed Canceled, n2)
                  | WaitPanic \<Rightarrow> (Panicked, n2)
                  | WaitTimeout \<Rightarrow> sendREQ_loop cfg (try + 1) attempts n2))
      else (Failed MetaExhausted, n))"
  by pat_completeness auto
termination
  by (relation "measure (\<lambda>(cfg, try, attempts, n). nat (attempts + 1 - try))") auto

definition sendREQAndGetMeta :: "Config \<Rightarrow> net \<Rightarrow> Meta attempt \<times> net" where
  "sendREQAndGetMeta cfg n =
     (let attempts = Retries cfg;
          attempts = (if attempts \<le> 0 then 3 else attempts)
      in sendREQ_loop cfg 1 attempts n)"

text \<open>
  The loop of \<^verbatim>\<open>receiveUntilIdleOrEOF\<close> over what the socket delivers; nothing is written
  in this phase. A panic of \<^verbatim>\<open>processPacket\<close> ends the program.
\<close>

function receiveUntilIdleOrEOF_loop ::
  "'g stdlib \<Rightarrow> Callbacks \<Rightarrow> int \<Rightarrow> int \<Rightarrow> obs list \<Rightarrow> 'g client \<Rightarrow> bool attempt \<times> obs list \<times> 'g client" where
  "receiveUntilIdleOrEOF_loop L cb maxIdleIncreased idleCount [] st =
     (if recv st \<noteq> Map.empty \<and> idleCount + 1 \<ge> maxIdleIncreased then (Returned False, [], st)
      else if idleCount + 1 > maxIdleIncreased then (Failed NoInitialData, [], st)
      else receiveUntilIdleOrEOF_loop L cb maxIdleIncreased (idleCount + 1) [] st)"
| "receiveUntilIdleOrEOF_loop L cb maxIdleIncreased idleCount (Timeout # rest) st =
     (if recv st \<noteq> Map.empty \<and> idleCount + 1 \<ge> maxIdleIncreased then (Returned False, rest, st)
      else if idleCount + 1 > maxIdleIncreased then (Failed NoInitialData, rest, st)
      else receiveUntilIdleOrEOF_loop L cb maxIdleIncreased (idleCount + 1) rest st)"
| "receiveUntilIdleOrEOF_loop L cb maxIdleIncreased idleCount (Cancel # rest) st =
     (Failed Canceled, rest, st)"
| "receiveUntilIdleOrEOF_loop L cb maxIdleIncreased idleCount (Deadline # rest) st =
     receiveUntilIdleOrEOF_loop L cb maxIdleIncreased idleCount rest st"
| "receiveUntilIdleOrEOF_loop L cb maxIdleIncreased idleCount (Datagram d # rest) st =
     (case processPacket L cb (read_into (HeaderSize + ChunkSize) d) st of
        Inl p \<Rightarrow> (Panicked, rest, st)
      | Inr r \<Rightarrow>
          if fst r then (Returned True, rest, snd r)
          else receiveUntilIdleOrEOF_loop L cb maxIdleIncreased 0 rest (snd r))"
  by pat_completeness auto
termination
  by (relation "measures [\<lambda>(L, cb, m, i, inb, st). length inb,
                          \<lambda>(L, cb, m, i, inb, st). nat (m + 1 - i)]") auto

definition receiveUntilIdleOrEOF ::
  "'g stdlib \<Rightarrow> Callbacks \<Rightarrow> int \<Rightarrow> obs list \<Rightarrow> 'g client \<Rightarrow> bool attempt \<times> obs list \<times> 'g client" where
  "receiveUntilIdleOrEOF L cb maxIdle inb st =
     (let maxIdleIncreased = maxIdle * 3 in receiveUntilIdleOrEOF_loop L cb maxIdleIncreased 0 inb st)"

text \<open>
  One round of NACK receives until the clock passes the deadline of the round; a read
  that times out sets a shorter deadline and goes on.
\<close>

fun nackRound_recv ::
  "'g stdlib \<Rightarrow> Callbacks \<Rightarrow> obs list \<Rightarrow> 'g client \<Rightarrow> unit attempt \<times> obs list \<times> 'g client" where
  "nackRound_recv L cb [] st = (Returned (), [], st)"
| "nackRound_recv L cb (Deadline # rest) st = (Returned (), rest, st)"
| "nackRound_recv L cb (Cancel # rest) st = (Failed Canceled, rest, st)"
| "nackRound_recv L cb (Timeout # rest) st = nackRound_recv L cb rest st"
| "nackRound_recv L cb (Datagram d # rest) st =
     (case processPacket L cb (read_into (HeaderSize + ChunkSize) d) st of
        Inl p \<Rightarrow> (Panicked, rest, st)
      | Inr r \<Rightarrow> nackRound_recv L cb rest (snd r))"

text \<open>
  The list that \<^verbatim>\<open>CtrlNACK\<close> is given. With a log callback and more than 20 missing
  sequences, \<^verbatim>\<open>append(missing[:10], missing[len(missing)-10:]...)\<close> for the log line has
  room in the array of \<^verbatim>\<open>missing\<close> and writes the last ten entries over the entries 10
  to 19 before the frame is packed.
\<close>

definition nackList :: "Callbacks \<Rightarrow> u32 list \<Rightarrow> u32 list" where
  "nackList cb missing =
     (if OnLog cb \<and> length missing > 20
      then take 10 missing @ drop (length missing - 10) missing @ drop 20 missing
      else missing)"

function runNackRounds_loop ::
  "'g stdlib \<Rightarrow> Callbacks \<Rightarrow> Meta \<Rightarrow> int \<Rightarrow> int \<Rightarrow> net \<Rightarrow> 'g client \<Rightarrow> unit attempt \<times> net \<times> 'g client" where
  "runNackRounds_loop L cb meta maxRounds rounds n st =
     (if (case inbox n of Cancel # rest \<Rightarrow> True | _ \<Rightarrow> False) then (Failed Canceled, n, st)
      else
        (let missing = computeMissing (mTotal meta) (recv st)
         in if length missing = 0 then (Returned (), n, st)
            else if rounds \<ge> maxRounds then (Failed NackExhausted, n, st)
            else
              (let n1 = (if write_ok n then n\<lparr>sent := sent n @ [CtrlNACK (nackList cb missing)]\<rparr> else n);
                   r = nackRound_recv L cb (inbox n1) st;
                   n2 = n1\<lparr>inbox := fst (snd r)\<rparr>
               in case fst r of
                    Returned u \<Rightarrow> runNackRounds_loop L cb meta maxRounds (rounds + 1) n2 (snd (snd r))
                  | Failed e \<Rightarrow> (Failed e, n2, snd (snd r))
                  | Panicked \<Rightarrow> (Panicked, n2, snd (snd r)))))"
  by pat_completeness auto
termination
  by (relation "measure (\<lambda>(L, cb, meta, maxRounds, rounds, n, st). nat (maxRounds - rounds))") auto

definition runNackRounds ::
  "'g stdlib \<Rightarrow> Callbacks \<Rightarrow> Meta \<Rightarrow> int \<Rightarrow> net \<Rightarrow> 'g client \<Rightarrow> unit attempt \<times> net \<times> 'g client" where
  "runNackRounds L cb meta maxRounds n st = runNackRounds_loop L cb meta maxRounds 0 n st"

definition receiveData ::
  "'g stdlib \<Rightarrow> Config \<Rightarrow> Callbacks \<Rightarrow> Meta \<Rightarrow> 'g DropPolicy option \<Rightarrow> net \<Rightarrow> unit attempt \<times> net \<times> 'g client" where
  "receiveData L cfg cb meta policy n =
     (let st = \<lparr>Drop = policy, recv = Map.empty, bytesRecv = 0, segsRecv = 0, events = []\<rparr>;
          maxRounds = Retries cfg;
          maxRounds = (if maxRounds \<le> 0 then 3 else maxRounds);
          r = receiveUntilIdleOrEOF L cb maxRounds (inbox n) st;
          n1 = n\<lparr>inbox := fst (snd r)\<rparr>
      in case fst r of
           Returned eof \<Rightarrow> runNackRounds L cb meta maxRounds n1 (snd (snd r))
         | Failed e \<Rightarrow> (Failed e, n1, snd (snd r))
         | Panicked \<Rightarrow> (Panicked, n1, snd (snd r)))"

subsection \<open>The file system\<close>

text \<open>
  The file system as the program meets it: what is at a path, the paths where opening,
  creating or making a directory is refused, and the paths where writing fails.
  \<^verbatim>\<open>os.MkdirAll\<close> makes the path a directory unless a file is in the way (the parents it
  makes on the way are not recorded); \<^verbatim>\<open>os.Create\<close> makes or empties a file and fails
  on a directory; \<^verbatim>\<open>Write\<close> appends to the file.
\<close>

datatype node = Dir | File bytes

record os =
  files :: "bytes \<rightharpoonup> node"
  denied :: "bytes set"
  full :: "bytes set"




subsection \<open>Assembly and verification\<close>





section \<open>Server (package serverudp)\<close>

text \<open>
  The state of the server is process-wide in the source: the map of active transfers by
  the address of the peer, the metrics and the base directory. \<open>wire\<close> lists the
  datagrams written with \<^verbatim>\<open>WriteToUDP\<close>, with their destination; the result of a write
  is ignored by the server and a write sends the whole datagram here. The handlers run as
  goroutines in the source and one at a time here.
\<close>

record fileEntry =
  feMeta :: Meta
  feChunks :: "bytes list"

record Metrics =
  BytesSent :: u64
  SegmentsSent :: u64
  NacksReceived :: u64
  Retransmissions :: u64
  ActiveClients :: u64

datatype srv_event = LogMETA bytes u32 u64 | LogEOF bytes nat | LogNACK bytes nat

record server =
  activeTransfers :: "bytes \<rightharpoonup> fileEntry"
  mtr :: Metrics
  baseDir :: bytes
  wire :: "(bytes \<times> bytes) list"
  srvlog :: "srv_event list"

definition WriteToUDP :: "bytes \<Rightarrow> bytes \<Rightarrow> server \<Rightarrow> server" where
  "WriteToUDP b addr sv = sv\<lparr>wire := wire sv @ [(addr, b)]\<rparr>"

text \<open>
  The read loop of \<^verbatim>\<open>loadFile\<close>: each read fills a buffer of \<open>ChunkSize\<close> bytes
  from the rest \<open>d\<close> of the file, until nothing is left.
\<close>

function readChunks :: "bytes \<Rightarrow> bytes list" where
  "readChunks d = (if d = [] then [] else take ChunkSize d # readChunks (drop ChunkSize d))"
  by pat_completeness auto
termination
  by (relation "measure length") (auto simp: ChunkSize_def)

datatype load_error = StatFailed | IsDirectory | OpenFailed

definition loadFile :: "'g stdlib \<Rightarrow> os \<Rightarrow> bytes \<Rightarrow> load_error + fileEntry" where
  "loadFile L w path =
     (case files w path of
        None \<Rightarrow> Inl StatFailed
      | Some Dir \<Rightarrow> Inl IsDirectory
      | Some (File d) \<Rightarrow>
          if path \<in> denied w then Inl OpenFailed
          else (let chunks = readChunks d;
                    sha = SHA256FileChunks L chunks;
                    m = \<lparr>mFilename = filepath_Base L path, mTotal = of_nat (length chunks),
                         mSize = of_nat (length d), mSHA256 = sha, mChunk = of_nat ChunkSize\<rparr>
                in Inr \<lparr>feMeta = m, feChunks = chunks\<rparr>))"

definition HasPrefix :: "bytes \<Rightarrow> bytes \<Rightarrow> bool" where
  "HasPrefix s p = (length s \<ge> length p \<and> take (length p) s = p)"

text \<open>The two messages of ERR, in UTF-8 as the source file has them.\<close>

definition msgInvalidPath :: bytes where
  "msgInvalidPath = bytes_of ''caminho inv'' @ [0xC3, 0xA1] @ bytes_of ''lido''"

definition msgNotFound :: bytes where
  "msgNotFound = bytes_of ''arquivo n'' @ [0xC3, 0xA3] @ bytes_of ''o encontrado''"

text \<open>One DATA packet: header and chunk, and the metrics the sender updates after it.\<close>

definition dataPacket :: "nat \<Rightarrow> nat \<Rightarrow> bytes \<Rightarrow> bytes" where
  "dataPacket i n chunk =
     PackHeader \<lparr>hSeq = of_nat i, hTotal = of_nat n, hSize = of_nat (length chunk),
                 hCRC32 = CRC32 chunk\<rparr> @ chunk"

definition sendChunk :: "bytes \<Rightarrow> nat \<Rightarrow> server \<Rightarrow> nat \<times> bytes \<Rightarrow> server" where
  "sendChunk addr n sv ic =
     (let pkt = dataPacket (fst ic) n (snd ic);
          sv1 = WriteToUDP pkt addr sv
      in sv1\<lparr>mtr := (mtr sv1)\<lparr>BytesSent := BytesSent (mtr sv1) + of_nat (length pkt),
                                SegmentsSent := SegmentsSent (mtr sv1) + 1\<rparr>\<rparr>)"

text \<open>
  \<^verbatim>\<open>handleREQ\<close>. \<open>logAppend\<close> tells whether the log callback is set: the handler calls
  it without a check once META is sent.
\<close>

definition handleREQ :: "'g stdlib \<Rightarrow> os \<Rightarrow> bool \<Rightarrow> bytes \<Rightarrow> bytes \<Rightarrow> server \<Rightarrow> panic + server" where
  "handleREQ L w logAppend addr path sv =
     (let safe = filepath_Clean L path
      in if safe = bytes_of ''.'' \<or> safe = bytes_of ''..'' \<or> HasPrefix safe (bytes_of ''..'')
         then Inr (WriteToUDP (CtrlERR msgInvalidPath) addr sv)
         else
           (let targetPath = filepath_Join L (baseDir sv) safe
            in case loadFile L w targetPath of
                 Inl e \<Rightarrow> Inr (WriteToUDP (CtrlERR msgNotFound) addr sv)
               | Inr entry \<Rightarrow>
                  (let sv1 = sv\<lparr>activeTransfers := (activeTransfers sv)(addr \<mapsto> entry),
                                mtr := (mtr sv)\<lparr>ActiveClients := ActiveClients (mtr sv) + 1\<rparr>\<rparr>;
                       sv2 = WriteToUDP (CtrlMETA (feMeta entry)) addr sv1
                   in if \<not> logAppend then Inl NilFunctionCall
                      else
                        (let sv3 = sv2\<lparr>srvlog := srvlog sv2 @
                                     [LogMETA addr (mTotal (feMeta entry)) (mSize (feMeta entry))]\<rparr>;
                             n = length (feChunks entry);
                             sv4 = foldl (sendChunk addr n) sv3 (zip [0..<n] (feChunks entry));
                             sv5 = WriteToUDP CtrlEOF addr sv4;
                             sv6 = sv5\<lparr>srvlog := srvlog sv5 @ [LogEOF addr n]\<rparr>
                         in Inr (sv6\<lparr>mtr := (mtr sv6)\<lparr>ActiveClients := ActiveClients (mtr sv6) - 1\<rparr>\<rparr>)))))"

definition resendChunk :: "bytes \<Rightarrow> fileEntry \<Rightarrow> server \<Rightarrow> u32 \<Rightarrow> server" where
  "resendChunk addr entry sv seq =
     (if unat seq < length (feChunks entry) then
        (let chunk = feChunks entry ! unat seq;
             pkt = dataPacket (unat seq) (length (feChunks entry)) chunk;
             sv1 = WriteToUDP pkt addr sv
         in sv1\<lparr>mtr := (mtr sv1)\<lparr>BytesSent := BytesSent (mtr sv1) + of_nat (length pkt),
                                   Retransmissions := Retransmissions (mtr sv1) + 1\<rparr>\<rparr>)
      else sv)"

definition handleNACK :: "bytes \<Rightarrow> u32 list \<Rightarrow> server \<Rightarrow> server" where
  "handleNACK addr missing sv =
     (let sv1 = sv\<lparr>mtr := (mtr sv)\<lparr>NacksReceived := NacksReceived (mtr sv) + 1\<rparr>\<rparr>
      in case activeTransfers sv1 addr of
           None \<Rightarrow> sv1
         | Some entry \<Rightarrow> foldl (resendChunk addr entry) sv1 missing)"

text \<open>
  \<^verbatim>\<open>dispatchCtrl\<close>; \<open>entries\<close> is what \<^verbatim>\<open>os.ReadDir\<close> returns for the base directory,
  each name with its \<^verbatim>\<open>IsDir\<close>.
\<close>

definition dispatchCtrl ::
  "'g stdlib \<Rightarrow> os \<Rightarrow> (bytes \<times> bool) list \<Rightarrow> bool \<Rightarrow> bytes \<Rightarrow> bytes \<Rightarrow> server \<Rightarrow> panic + server" where
  "dispatchCtrl L w entries logAppend addr b sv =
     (case DecodeCtrl b of
        Inl e \<Rightarrow> Inr sv
      | Inr (typ, v) \<Rightarrow>
          if typ = TypeREQ then
            (case v of Req p \<Rightarrow> handleREQ L w logAppend addr p sv | _ \<Rightarrow> Inl TypeAssertionFailed)
          else if typ = TypeNACK then
            (case v of
               Nack missing \<Rightarrow>
                 Inr (handleNACK addr missing
                       (if logAppend then sv\<lparr>srvlog := srvlog sv @ [LogNACK addr (length missing)]\<rparr>
                        else sv))
             | _ \<Rightarrow> Inl TypeAssertionFailed)
          else if typ = TypeLIST then
            Inr (WriteToUDP (CtrlLST (map fst (filter (\<lambda>e. \<not> snd e) entries))) addr sv)
          else Inr sv)"

text \<open>One round of \<^verbatim>\<open>packetLoop\<close>: a datagram read into the buffer of 4096 bytes.\<close>

definition serveDatagram ::
  "'g stdlib \<Rightarrow> os \<Rightarrow> (bytes \<times> bool) list \<Rightarrow> bool \<Rightarrow> bytes \<Rightarrow> bytes \<Rightarrow> server \<Rightarrow> panic + server" where
  "serveDatagram L w entries logAppend addr d sv =
     (let b = take 4096 d
      in if IsCtrl b then dispatchCtrl L w entries logAppend addr b sv else Inr sv)"

section \<open>Vocabulary of the properties, and examples\<close>

text \<open>
  The byte that one round of the loop of \<^verbatim>\<open>parseHexSha\<close> writes at index \<open>k\<close>.
\<close>

definition hexbyte :: "bytes \<Rightarrow> nat \<Rightarrow> byte" where
  "hexbyte s k = push_bit 4 (fst (hexval (s ! (k * 2)))) OR fst (hexval (s ! (k * 2 + 1)))"

text \<open>A string of 64 lowercase hexadecimal characters, as \<^verbatim>\<open>fmtHash\<close> prints a SHA-256.\<close>

definition is_lower_hex :: "byte \<Rightarrow> bool" where
  "is_lower_hex c = (0x30 \<le> c \<and> c \<le> 0x39 \<or> 0x61 \<le> c \<and> c \<le> 0x66)"

definition valid_sha :: "bytes \<Rightarrow> bool" where
  "valid_sha s = (length s = 64 \<and> list_all is_lower_hex s)"

text \<open>A META whose filename has 65535 bytes, the largest value of the field fnLen.\<close>

definition longNameMeta :: Meta where
  "longNameMeta = \<lparr>mFilename = replicate 65535 0x61, mTotal = 1, mSize = 1,
     mSHA256 = replicate 64 0x30, mChunk = 1024\<rparr>"

text \<open>
  The vocabulary of the receive invariant: a packet leaves the map and both counters as
  they are, or its payload (the \<open>hSize\<close> bytes behind the header) is stored under its
  sequence and counted; it is stored exactly when it is long enough, the drop policy lets
  it pass, its checksum matches and its sequence is new.
\<close>

definition unchanged :: "'g client \<Rightarrow> 'g client \<Rightarrow> bool" where
  "unchanged st st' = (recv st' = recv st \<and> bytesRecv st' = bytesRecv st \<and> segsRecv st' = segsRecv st)"

definition payload_of :: "goslice \<Rightarrow> DataHeader \<Rightarrow> bytes" where
  "payload_of b h = sub (elems b) HeaderSize (HeaderSize + unat (hSize h))"

definition stored :: "DataHeader \<Rightarrow> bytes \<Rightarrow> 'g client \<Rightarrow> 'g client \<Rightarrow> bool" where
  "stored h payload st st' =
     (recv st' = (recv st)(hSeq h \<mapsto> payload) \<and>
      bytesRecv st' = bytesRecv st + of_nat (length payload) \<and>
      segsRecv st' = segsRecv st + 1)"

definition accepted :: "'g stdlib \<Rightarrow> goslice \<Rightarrow> DataHeader \<Rightarrow> 'g client \<Rightarrow> bool" where
  "accepted L b h st =
     (HeaderSize + unat (hSize h) \<le> len b \<and>
      \<not> fst (ShouldDrop L (Drop st) (hSeq h)) \<and>
      CRC32 (payload_of b h) = hCRC32 h \<and>
      recv st (hSeq h) = None)"

text \<open>
  A small stand-in for the standard library, to run the model on examples: a random
  source that alternates between 1/4 and 3/4, a digest made of the length of the data,
  and path functions that are right on plain relative paths.
\<close>

definition stdlib0 :: "nat stdlib" where
  "stdlib0 =
     \<lparr>rand_NewSource = unat,
      rand_Float64 = (\<lambda>g. (if even g then 1 / 4 else 3 / 4, g + 1)),
      sha256_Sum = (\<lambda>d. replicate 32 (of_nat (length d))),
      filepath_Clean = (\<lambda>p. p),
      filepath_Base = (\<lambda>p. rev (takeWhile (\<lambda>c. c \<noteq> 0x2F) (rev p))),
      filepath_Dir = (\<lambda>p. if 0x2F \<in> set p then rev (tl (dropWhile (\<lambda>c. c \<noteq> 0x2F) (rev p))) else [0x2E]),
      filepath_Join = (\<lambda>a b. a @ [0x2F] @ b),
      strings_TrimSpace = (\<lambda>s. rev (dropWhile (\<lambda>c. c = 0x20) (rev (dropWhile (\<lambda>c. c = 0x20) s))))\<rparr>"

text \<open>The state of a transfer that has received nothing, without a drop policy.\<close>

definition client0 :: "nat client" where
  "client0 = \<lparr>Drop = None, recv = Map.empty, bytesRecv = 0, segsRecv = 0, events = []\<rparr>"

text \<open>The DATA packet of segment 0 of 1 with the payload \<open>a\<close> and its CRC32.\<close>

definition packet_a :: bytes where
  "packet_a = [0x55, 0x44, 1, 0, 0, 0, 0, 0, 0, 0, 0, 1, 0, 1, 0xE8, 0xB7, 0xBE, 0x43, 0x61]"


text \<open>
  A file system with the working directory and a directory \<open>out\<close>, and the META of
  the file \<open>a.txt\<close> that holds the byte \<open>a\<close>.
\<close>

definition os0 :: os where
  "os0 = \<lparr>files = [bytes_of ''.'' \<mapsto> Dir, bytes_of ''out'' \<mapsto> Dir], denied = {}, full = {}\<rparr>"


text \<open>A server that has sent nothing, serving the working directory.\<close>

definition server0 :: server where
  "server0 = \<lparr>activeTransfers = Map.empty,
     mtr = \<lparr>BytesSent = 0, SegmentsSent = 0, NacksReceived = 0, Retransmissions = 0, ActiveClients = 0\<rparr>,
     baseDir = bytes_of ''.'', wire = [], srvlog = []\<rparr>"

text \<open>A base directory that holds \<open>a.txt\<close> with the byte \<open>a\<close>.\<close>

definition os1 :: os where
  "os1 = \<lparr>files = [bytes_of ''./a.txt'' \<mapsto> File [0x61]], denied = {}, full = {}\<rparr>"

section \<open>Properties of the codec\<close>

declare parseHexSha_loop.simps [simp del]

lemma Uint16_PutUint16: "Uint16 (PutUint16 v) = v"
  unfolding Uint16_def PutUint16_def
  by (rule bit_word_eqI) (auto simp: bit_simps)

lemma Uint32_PutUint32: "Uint32 (PutUint32 v) = v"
  unfolding Uint32_def PutUint32_def
  apply (rule bit_word_eqI)
  apply (simp add: bit_simps less_diff_conv2 cong: conj_cong)
  subgoal for n by (cases "bit v n") (simp_all, linarith)
  done

lemma Uint64_PutUint64: "Uint64 (PutUint64 v) = v"
  unfolding Uint64_def PutUint64_def
  apply (rule bit_word_eqI)
  apply (simp add: bit_simps less_diff_conv2 cong: conj_cong)
  subgoal for n by (cases "bit v n") (simp_all, linarith)
  done

lemma length_PutUint16 [simp]: "length (PutUint16 v) = 2"
  by (simp add: PutUint16_def)

lemma length_PutUint32 [simp]: "length (PutUint32 v) = 4"
  by (simp add: PutUint32_def)

lemma length_PutUint64 [simp]: "length (PutUint64 v) = 8"
  by (simp add: PutUint64_def)

lemma sub_append_skip: "length xs \<le> i \<Longrightarrow> sub (xs @ ys) i j = sub ys (i - length xs) (j - length xs)"
  by (simp add: sub_def)

lemma sub_exact: "length xs = j \<Longrightarrow> sub (xs @ ys) 0 j = xs"
  by (simp add: sub_def)

text \<open>
  C4. For every DataHeader \<open>h\<close>, \<open>PackHeader h\<close> is exactly 18 bytes long, and
  \<open>UnpackHeader (PackHeader h)\<close> succeeds and returns \<open>h\<close>.
\<close>

theorem PackHeader_roundtrip:
  "length (PackHeader h) = 18 \<and> UnpackHeader (PackHeader h) = Inr h"
proof -
  have len: "length (PackHeader h) = 18"
    by (simp add: PackHeader_def)
  have s1: "sub (PackHeader h) 4 8 = PutUint32 (hSeq h)"
    by (simp add: PackHeader_def sub_def)
  have s2: "sub (PackHeader h) 8 12 = PutUint32 (hTotal h)"
    by (simp add: PackHeader_def sub_def)
  have s3: "sub (PackHeader h) 12 14 = PutUint16 (hSize h)"
    by (simp add: PackHeader_def sub_def)
  have s4: "sub (PackHeader h) 14 18 = PutUint32 (hCRC32 h)"
    by (simp add: PackHeader_def sub_def)
  have magic: "PackHeader h ! 0 = 0x55" "PackHeader h ! 1 = 0x44" "PackHeader h ! 2 = ProtocolVersion"
    by (simp_all add: PackHeader_def)
  have "UnpackHeader (PackHeader h) = Inr h"
    unfolding UnpackHeader_def using magic
    by (simp add: len dataHeaderSize_def s1 s2 s3 s4 Uint32_PutUint32 Uint16_PutUint16)
  with len show ?thesis by simp
qed

text \<open>The header of segment 7 of 10, with a payload of 1024 bytes, on the wire and back.\<close>

theorem PackHeader_roundtrip_witness:
  "PackHeader \<lparr>hSeq = 7, hTotal = 10, hSize = 1024, hCRC32 = 0xDEADBEEF\<rparr> =
     [0x55, 0x44, 1, 0, 0, 0, 0, 7, 0, 0, 0, 10, 4, 0, 0xDE, 0xAD, 0xBE, 0xEF] \<and>
   UnpackHeader [0x55, 0x44, 1, 0, 0, 0, 0, 7, 0, 0, 0, 10, 4, 0, 0xDE, 0xAD, 0xBE, 0xEF] =
     Inr \<lparr>hSeq = 7, hTotal = 10, hSize = 1024, hCRC32 = 0xDEADBEEF\<rparr>"
proof -
  have p: "PackHeader \<lparr>hSeq = 7, hTotal = 10, hSize = 1024, hCRC32 = 0xDEADBEEF\<rparr> =
     [0x55, 0x44, 1, 0, 0, 0, 0, 7, 0, 0, 0, 10, 4, 0, 0xDE, 0xAD, 0xBE, 0xEF]"
    by (simp add: PackHeader_def PutUint32_def PutUint16_def ProtocolVersion_def)
  from PackHeader_roundtrip [of "\<lparr>hSeq = 7, hTotal = 10, hSize = 1024, hCRC32 = 0xDEADBEEF\<rparr>"]
  show ?thesis unfolding p by (simp add: p)
qed

subsection \<open>Control frames: NACK\<close>

lemma sub_take: "j \<le> l \<Longrightarrow> sub (take l b) i j = sub b i j"
  by (simp add: sub_def drop_take min_def)

lemma sub_append_left: "j \<le> length xs \<Longrightarrow> sub (xs @ ys) i j = sub xs i j"
  by (simp add: sub_def)

lemma sub_whole: "sub xs 0 (length xs) = xs"
  by (simp add: sub_def)

lemma sub_append_mid: "length xs = i \<Longrightarrow> j = i + length ys \<Longrightarrow> sub (xs @ ys @ zs) i j = ys"
  by (simp add: sub_def)

lemma unat_of_nat16: "unat (of_nat n :: u16) = n mod 65536"
  by (simp add: unat_of_nat)

lemma length_concat_PutUint32: "length (concat (map PutUint32 ms)) = 4 * length ms"
  by (induction ms) simp_all

lemma unpackNACK_loop_take: "off + 4 * k \<le> l \<Longrightarrow> unpackNACK_loop k off (take l b) = unpackNACK_loop k off b"
  by (induction k arbitrary: off) (simp_all add: sub_take)

lemma unpackNACK_loop_read:
  "length pre = off \<Longrightarrow> k \<le> length ms \<Longrightarrow>
   unpackNACK_loop k off (pre @ concat (map PutUint32 ms)) = take k ms"
proof (induction k arbitrary: off pre ms)
  case 0
  then show ?case by simp
next
  case (Suc k)
  then obtain m ms' where ms: "ms = m # ms'" by (cases ms) auto
  have hd: "sub (pre @ concat (map PutUint32 ms)) off (off + 4) = PutUint32 m"
    using Suc.prems(1) by (simp add: ms sub_def)
  have "unpackNACK_loop k (off + 4) ((pre @ PutUint32 m) @ concat (map PutUint32 ms')) = take k ms'"
    using Suc.prems by (intro Suc.IH) (simp_all add: ms)
  then show ?case
    by (simp add: hd Uint32_PutUint32) (simp add: ms)
qed

lemma length_ctrlHeader [simp]: "length (ctrlHeader t n) = 6"
  by (simp add: ctrlHeader_def)

lemma parseCtrl_frame:
  "parseCtrl (ctrlHeader t n @ payload) =
     (if length payload < n mod 65536 then Inl ShortCtrlPayload
      else Inr (t, take (n mod 65536) payload))"
proof -
  have l: "sub (ctrlHeader t n @ payload) 4 6 = PutUint16 (of_nat n)"
    by (simp add: ctrlHeader_def sub_def)
  have p: "sub (ctrlHeader t n @ payload) 6 (6 + k) = take k payload" for k
    by (simp add: ctrlHeader_def sub_def)
  have m: "(ctrlHeader t n @ payload) ! 0 = ctrlMagic0" "(ctrlHeader t n @ payload) ! 1 = ctrlMagic1"
    "(ctrlHeader t n @ payload) ! 2 = ProtocolVersion" "(ctrlHeader t n @ payload) ! 3 = t"
    by (simp_all add: ctrlHeader_def)
  have len: "length (ctrlHeader t n @ payload) = 6 + length payload"
    by (simp add: ctrlHeader_def)
  show ?thesis
    unfolding parseCtrl_def using m
    by (simp add: l p len Uint16_PutUint16 unat_of_nat16 Let_def)
qed


lemma parseCtrl_fits:
  "length payload < 65536 \<Longrightarrow> parseCtrl (ctrlHeader t (length payload) @ payload) = Inr (t, payload)"
  by (simp add: parseCtrl_frame)

lemma unpackNACK_payload:
  assumes "length missing < 65536"
  shows "unpackNACK (PutUint16 (of_nat (length missing)) @ concat (map PutUint32 missing)) = Inr (Nack missing)"
proof -
  define c where "c = PutUint16 (of_nat (length missing))"
  define body where "body = concat (map PutUint32 missing)"
  have lc: "length c = 2" and lb: "length body = 4 * length missing"
    by (simp_all add: c_def body_def length_concat_PutUint32)
  have cnt: "sub (c @ body) 0 2 = c"
    using lc by (simp add: sub_def)
  have n: "unat (Uint16 c) = length missing"
    using assms by (simp add: c_def Uint16_PutUint16 unat_of_nat16)
  have loop: "unpackNACK_loop (length missing) 2 (c @ body) = missing"
    unfolding body_def using unpackNACK_loop_read [of c 2 "length missing" missing] lc by simp
  show ?thesis
    unfolding unpackNACK_def Let_def c_def [symmetric] body_def [symmetric]
    by (simp add: cnt n loop lc lb)
qed

lemma CtrlNACK_small:
  assumes "length missing \<le> 16383"
  shows "DecodeCtrl (CtrlNACK missing) = Inr (TypeNACK, Nack missing)"
proof -
  define payload where "payload = PutUint16 (of_nat (length missing)) @ concat (map PutUint32 missing)"
  have len: "length payload < 65536"
    using assms by (simp add: payload_def length_concat_PutUint32)
  have pc: "parseCtrl (CtrlNACK missing) = Inr (ctrlTypeNACK, payload)"
    unfolding CtrlNACK_def packNACK_def Let_def payload_def [symmetric]
    using len by (rule parseCtrl_fits)
  have "unpackNACK payload = Inr (Nack missing)"
    unfolding payload_def using assms by (intro unpackNACK_payload) simp
  then show ?thesis
    by (simp add: DecodeCtrl_def pc tagged_def ctrlTypeNACK_def ctrlTypeREQ_def ctrlTypeMETA_def
        ctrlTypeERR_def ctrlTypeEOF_def)
qed


lemma DecodeCtrl_CtrlNACK:
  "DecodeCtrl (CtrlNACK missing) =
     (let l = (2 + 4 * length missing) mod 65536; c = length missing mod 65536
      in if l < 2 then Inl ShortNACK
         else if l < 2 + 4 * c then Inl ShortNACK2
         else Inr (TypeNACK, Nack (take c missing)))"
proof -
  define cnt where "cnt = PutUint16 (of_nat (length missing))"
  define payload where "payload = cnt @ concat (map PutUint32 missing)"
  define l where "l = (2 + 4 * length missing) mod 65536"
  define c where "c = length missing mod 65536"
  have lc: "length cnt = 2" and len: "length payload = 2 + 4 * length missing"
    by (simp_all add: cnt_def payload_def length_concat_PutUint32)
  have l_le: "l \<le> length payload"
    unfolding l_def len by (rule mod_less_eq_dividend)
  have pc: "parseCtrl (CtrlNACK missing) = Inr (ctrlTypeNACK, take l payload)"
    unfolding CtrlNACK_def packNACK_def Let_def cnt_def [symmetric] payload_def [symmetric]
    using l_le by (simp add: parseCtrl_frame len l_def)
  have c_le: "c \<le> length missing"
    unfolding c_def by (rule mod_less_eq_dividend)
  have un: "unpackNACK (take l payload) =
      (if l < 2 then Inl ShortNACK else if l < 2 + 4 * c then Inl ShortNACK2
       else Inr (Nack (take c missing)))"
  proof (cases "l < 2")
    case True
    then show ?thesis using l_le by (simp add: unpackNACK_def)
  next
    case False
    then have l2: "2 \<le> l" by simp
    have "sub (take l payload) 0 2 = sub payload 0 2"
      using l2 by (rule sub_take)
    also have "\<dots> = cnt"
      using lc by (simp add: payload_def sub_def)
    finally have s: "sub (take l payload) 0 2 = cnt" .
    have n: "unat (Uint16 cnt) = c"
      by (simp add: cnt_def c_def Uint16_PutUint16 unat_of_nat16)
    have loop: "unpackNACK_loop c 2 (take l payload) = take c missing" if "2 + 4 * c \<le> l"
    proof -
      have "unpackNACK_loop c 2 (take l payload) = unpackNACK_loop c 2 payload"
        using that by (rule unpackNACK_loop_take)
      also have "\<dots> = take c missing"
        unfolding payload_def using lc c_le by (rule unpackNACK_loop_read)
      finally show ?thesis .
    qed
    have lt: "length (take l payload) = l"
      using l_le by simp
    show ?thesis
    proof (cases "l < 2 + 4 * c")
      case True
      with False show ?thesis
        unfolding unpackNACK_def Let_def s n lt by simp
    next
      case short: False
      then have "2 + 4 * c \<le> l" by simp
      from loop [OF this] False short show ?thesis
        unfolding unpackNACK_def Let_def s n lt by simp
    qed
  qed
  show ?thesis
    unfolding Let_def l_def [symmetric] c_def [symmetric]
    by (simp add: DecodeCtrl_def pc un tagged_def ctrlTypeNACK_def ctrlTypeREQ_def ctrlTypeMETA_def
        ctrlTypeERR_def ctrlTypeEOF_def)
qed

text \<open>
  C10. One NACK frame carries at most 16383 missing sequences. A list of at most 16383
  entries comes back from \<open>DecodeCtrl (CtrlNACK missing)\<close> unchanged. For a longer list
  the 16-bit payload length (and, from 65536 entries on, the 16-bit count) wraps around:
  the round trip does not return the list; decoding fails, or returns a strictly shorter
  prefix of it.
\<close>

theorem CtrlNACK_capacity:
  "(length missing \<le> 16383 \<longrightarrow> DecodeCtrl (CtrlNACK missing) = Inr (TypeNACK, Nack missing)) \<and>
   (16383 < length missing \<longrightarrow>
      DecodeCtrl (CtrlNACK missing) \<noteq> Inr (TypeNACK, Nack missing) \<and>
      (DecodeCtrl (CtrlNACK missing) = Inl ShortNACK \<or>
       DecodeCtrl (CtrlNACK missing) = Inl ShortNACK2 \<or>
       (\<exists>k. k < length missing \<and> DecodeCtrl (CtrlNACK missing) = Inr (TypeNACK, Nack (take k missing)))))"
proof (intro conjI impI)
  assume "length missing \<le> 16383"
  then show "DecodeCtrl (CtrlNACK missing) = Inr (TypeNACK, Nack missing)"
    by (simp add: DecodeCtrl_CtrlNACK)
next
  assume big: "16383 < length missing"
  define l where "l = (2 + 4 * length missing) mod 65536"
  define c where "c = length missing mod 65536"
  have l: "l < 65536" by (simp add: l_def)
  have D: "DecodeCtrl (CtrlNACK missing) =
      (if l < 2 then Inl ShortNACK else if l < 2 + 4 * c then Inl ShortNACK2
       else Inr (TypeNACK, Nack (take c missing)))"
    by (simp add: DecodeCtrl_CtrlNACK l_def c_def Let_def)
  have c: "c < length missing" if "\<not> l < 2 + 4 * c"
    using that l big by simp
  have neq: "take c missing \<noteq> missing" if "c < length missing"
  proof
    assume "take c missing = missing"
    then have "length (take c missing) = length missing" by simp
    with that show False by simp
  qed
  show "DecodeCtrl (CtrlNACK missing) \<noteq> Inr (TypeNACK, Nack missing)"
    unfolding D using c neq by auto
  show "DecodeCtrl (CtrlNACK missing) = Inl ShortNACK \<or>
       DecodeCtrl (CtrlNACK missing) = Inl ShortNACK2 \<or>
       (\<exists>k. k < length missing \<and> DecodeCtrl (CtrlNACK missing) = Inr (TypeNACK, Nack (take k missing)))"
    unfolding D using c by auto
qed

text \<open>
  Two entries come back; 16384 entries make decoding fail; 65536 entries come back as
  the empty list.
\<close>

theorem CtrlNACK_capacity_witness:
  "DecodeCtrl (CtrlNACK [3, 7]) = Inr (TypeNACK, Nack [3, 7]) \<and>
   DecodeCtrl (CtrlNACK (replicate 16384 0)) \<noteq> Inr (TypeNACK, Nack (replicate 16384 0)) \<and>
   DecodeCtrl (CtrlNACK (replicate 16384 0)) = Inl ShortNACK2 \<and>
   DecodeCtrl (CtrlNACK (replicate 65536 9)) = Inr (TypeNACK, Nack [])"
proof -
  have a: "DecodeCtrl (CtrlNACK [3, 7]) = Inr (TypeNACK, Nack [3, 7])"
    using CtrlNACK_capacity [of "[3, 7]"] by simp
  have b: "DecodeCtrl (CtrlNACK (replicate 16384 0)) \<noteq> Inr (TypeNACK, Nack (replicate 16384 0))"
    using CtrlNACK_capacity [of "replicate 16384 0"] by simp
  have c: "DecodeCtrl (CtrlNACK (replicate 16384 0)) = Inl ShortNACK2"
    by (simp add: DecodeCtrl_CtrlNACK)
  have d: "DecodeCtrl (CtrlNACK (replicate 65536 9)) = Inr (TypeNACK, Nack [])"
    by (simp add: DecodeCtrl_CtrlNACK)
  from a b c d show ?thesis by simp
qed

subsection \<open>Hexadecimal digits\<close>

lemma byte_15_mask: "(0x0f :: byte) = mask 4"
  by (simp add: mask_eq_exp_minus_1)

lemma nib_mask: "(h::byte) < 16 \<Longrightarrow> h AND mask 4 = h"
  using less_mask_eq [of h 4] by simp

lemma nib_hi_aux: "drop_bit 4 (push_bit 4 ((h::byte) AND mask 4) OR (l AND mask 4)) = h AND mask 4"
  by (rule bit_word_eqI) (auto simp: bit_simps)

lemma nib_lo_aux: "(push_bit 4 ((h::byte) AND mask 4) OR (l AND mask 4)) AND mask 4 = l AND mask 4"
  by (rule bit_word_eqI) (auto simp: bit_simps)

lemma nib_hi: "(h::byte) < 16 \<Longrightarrow> l < 16 \<Longrightarrow> drop_bit 4 (push_bit 4 h OR l) = h"
  using nib_hi_aux [of h l] by (simp add: nib_mask)

lemma nib_lo: "(h::byte) < 16 \<Longrightarrow> l < 16 \<Longrightarrow> (push_bit 4 h OR l) AND 0x0f = l"
  using nib_lo_aux [of h l] by (simp add: nib_mask byte_15_mask)

lemma nib_join: "push_bit 4 (drop_bit 4 (v::byte)) OR (v AND 0x0f) = v"
  unfolding byte_15_mask
  by (rule bit_word_eqI) (auto simp: bit_simps)

lemma nib_lt1: "drop_bit 4 (v::byte) < 16"
proof -
  have "drop_bit 4 v AND mask 4 = drop_bit 4 v"
    by (rule bit_word_eqI) (auto simp: bit_simps dest: bit_imp_le_length)
  then show ?thesis using and_mask_less' [of 4 "drop_bit 4 v"] by simp
qed

lemma nib_lt2: "(v::byte) AND 0x0f < 16"
  using and_mask_less' [of 4 v] by (simp add: byte_15_mask)

lemma nib_mem: "(n::byte) < 16 \<Longrightarrow> n \<in> set (map of_nat [0..<16])"
proof -
  assume "n < 16"
  then have "unat n < 16" by (simp add: word_less_nat_alt)
  then have "unat n \<in> set [0..<16]" by simp
  then have "(of_nat (unat n) :: byte) \<in> of_nat ` set [0..<16]" by (rule imageI)
  then show ?thesis by simp
qed

lemma hexval_hexdigits_all: "\<forall>n \<in> set (map of_nat [0..<16]). hexval (hexdigits ! unat (n::byte)) = (n, True)"
  by code_simp

lemma hexval_hexdigits: "(n::byte) < 16 \<Longrightarrow> hexval (hexdigits ! unat n) = (n, True)"
  using hexval_hexdigits_all nib_mem by blast

lemma hexdigits_codes: "hexdigits = map of_nat ([48..<58] @ [97..<103])"
  by code_simp

lemma lower_hex_mem: "is_lower_hex c \<Longrightarrow> c \<in> set hexdigits"
proof -
  assume "is_lower_hex c"
  then have "48 \<le> unat c \<and> unat c \<le> 57 \<or> 97 \<le> unat c \<and> unat c \<le> 102"
    by (simp add: is_lower_hex_def word_le_nat_alt)
  then have "unat c \<in> set ([48..<58] @ [97..<103])"
    by (simp only: set_append set_upt Un_iff atLeastLessThan_iff) arith
  then have "(of_nat (unat c) :: byte) \<in> of_nat ` set ([48..<58] @ [97..<103])" by (rule imageI)
  then show ?thesis unfolding hexdigits_codes by simp
qed

lemma hexdigits_hexval_all: "\<forall>c \<in> set hexdigits. snd (hexval c) \<and> fst (hexval c) < 16 \<and> hexdigits ! unat (fst (hexval c)) = c"
  by code_simp


lemma lower_hex_hexval:
  assumes "is_lower_hex c"
  shows "snd (hexval c)" "fst (hexval c) < 16" "hexdigits ! unat (fst (hexval c)) = c"
  using hexdigits_hexval_all lower_hex_mem [OF assms] by blast+

lemma parseHexSha_loop_valid:
  "\<forall>k<32. snd (hexval (s ! (k * 2))) \<and> snd (hexval (s ! (k * 2 + 1))) \<Longrightarrow> i \<le> 32 \<Longrightarrow>
   length b = 32 \<Longrightarrow> parseHexSha_loop s i b = take i b @ map (hexbyte s) [i..<32]"
proof (induction s i b rule: parseHexSha_loop.induct)
  case (1 s i b)
  show ?case
  proof (cases "i < 32")
    case False
    with "1.prems" show ?thesis
      by (subst parseHexSha_loop.simps) simp
  next
    case True
    obtain hi ok1 where h: "hexval (s ! (i * 2)) = (hi, ok1)" by (cases "hexval (s ! (i * 2))")
    obtain lo ok2 where l: "hexval (s ! (i * 2 + 1)) = (lo, ok2)" by (cases "hexval (s ! (i * 2 + 1))")
    from l have l': "hexval (s ! Suc (i * 2)) = (lo, ok2)" by simp
    from "1.prems"(1) True h l have ok: "ok1" "ok2" by auto
    let ?b = "b[i := push_bit 4 hi OR lo]"
    have IH: "parseHexSha_loop s (Suc i) ?b = take (Suc i) ?b @ map (hexbyte s) [Suc i..<32]"
      using "1.IH" [OF True h [symmetric] refl l [symmetric] refl] ok "1.prems" True by simp
    have tk: "take (Suc i) ?b = take i b @ [hexbyte s i]"
      using True "1.prems"(3) by (simp add: take_Suc_conv_app_nth hexbyte_def h l')
    have up: "[i..<32] = i # [Suc i..<32]"
      using True by (simp add: upt_conv_Cons)
    show ?thesis
      by (subst parseHexSha_loop.simps) (simp add: True h l l' ok IH tk up)
  qed
qed

lemma concat_pairs_take:
  "2 * n \<le> length s \<Longrightarrow> concat (map (\<lambda>k. [s ! (k * 2), s ! (k * 2 + 1)]) [0..<n]) = take (2 * n) s"
proof (induction n)
  case 0
  then show ?case by simp
next
  case (Suc n)
  then have "take (2 * Suc n) s = take (2 * n) s @ [s ! (2 * n), s ! (2 * n + 1)]"
    by (simp add: take_Suc_conv_app_nth)
  with Suc show ?case by (simp add: mult.commute)
qed

lemma nth_concat_pairs:
  "k < length d \<Longrightarrow> concat (map (\<lambda>v. [f v, g v]) d) ! (k * 2) = f (d ! k) \<and>
     concat (map (\<lambda>v. [f v, g v]) d) ! (k * 2 + 1) = g (d ! k)"
proof (induction d arbitrary: k)
  case Nil
  then show ?case by simp
next
  case (Cons v d)
  show ?case
  proof (cases k)
    case 0
    then show ?thesis by simp
  next
    case (Suc j)
    with Cons.prems have "j < length d" by simp
    from Cons.IH [OF this] Suc show ?thesis by simp
  qed
qed

lemma length_fmtHash: "length (fmtHash b) = 2 * length b"
  by (induction b) (simp_all add: fmtHash_def)

lemma fmtHash_parseHexSha:
  assumes "valid_sha s"
  shows "fmtHash (parseHexSha s) = s"
proof -
  from assms have len: "length s = 64" and hex: "\<And>j. j < 64 \<Longrightarrow> is_lower_hex (s ! j)"
    by (simp_all add: valid_sha_def list_all_length)
  have ok: "\<forall>k<32. snd (hexval (s ! (k * 2))) \<and> snd (hexval (s ! (k * 2 + 1)))"
    using hex by (auto intro!: lower_hex_hexval(1))
  have p: "parseHexSha s = map (hexbyte s) [0..<32]"
    unfolding parseHexSha_def Let_def using parseHexSha_loop_valid [OF ok, of 0 "replicate 32 0"] len
    by simp
  have d: "[hexdigits ! unat (drop_bit 4 (hexbyte s k)), hexdigits ! unat (hexbyte s k AND 0x0f)]
        = [s ! (k * 2), s ! (k * 2 + 1)]" if "k < 32" for k
  proof -
    from that have a: "is_lower_hex (s ! (k * 2))" and b: "is_lower_hex (s ! (k * 2 + 1))"
      by (auto intro: hex)
    have hi: "drop_bit 4 (hexbyte s k) = fst (hexval (s ! (k * 2)))"
      unfolding hexbyte_def
      by (rule nib_hi) (rule lower_hex_hexval(2) [OF a], rule lower_hex_hexval(2) [OF b])
    have lo: "hexbyte s k AND 0x0f = fst (hexval (s ! (k * 2 + 1)))"
      unfolding hexbyte_def
      by (rule nib_lo) (rule lower_hex_hexval(2) [OF a], rule lower_hex_hexval(2) [OF b])
    show ?thesis
      by (simp only: hi lo lower_hex_hexval(3) [OF a] lower_hex_hexval(3) [OF b])
  qed
  have "fmtHash (parseHexSha s) = concat (map (\<lambda>k. [s ! (k * 2), s ! (k * 2 + 1)]) [0..<32])"
    unfolding p fmtHash_def map_map comp_def
    by (rule arg_cong [where f = concat], rule map_cong) (simp_all add: d)
  also have "\<dots> = take (2 * 32) s"
    by (rule concat_pairs_take) (simp add: len)
  finally show ?thesis by (simp add: len)
qed

lemma parseHexSha_fmtHash:
  assumes "length d = 32"
  shows "parseHexSha (fmtHash d) = d"
proof -
  let ?s = "fmtHash d"
  have len: "length ?s = 64" by (simp add: length_fmtHash assms)
  have nth: "?s ! (k * 2) = hexdigits ! unat (drop_bit 4 (d ! k))"
            "?s ! (k * 2 + 1) = hexdigits ! unat (d ! k AND 0x0f)" if "k < 32" for k
    using nth_concat_pairs [of k d "\<lambda>v. hexdigits ! unat (drop_bit 4 v)" "\<lambda>v. hexdigits ! unat (v AND 0x0f)"]
      that assms by (simp_all add: fmtHash_def)
  have ok: "\<forall>k<32. snd (hexval (?s ! (k * 2))) \<and> snd (hexval (?s ! (k * 2 + 1)))"
  proof (intro allI impI conjI)
    fix k :: nat
    assume k: "k < 32"
    show "snd (hexval (?s ! (k * 2)))"
      unfolding nth(1) [OF k] by (simp add: hexval_hexdigits nib_lt1)
    show "snd (hexval (?s ! (k * 2 + 1)))"
      unfolding nth(2) [OF k] by (simp add: hexval_hexdigits nib_lt2)
  qed
  have hb: "hexbyte ?s k = d ! k" if "k < 32" for k
    unfolding hexbyte_def
    by (simp only: nth [OF that] hexval_hexdigits nib_lt1 nib_lt2 fst_conv nib_join)
  have "parseHexSha ?s = map (hexbyte ?s) [0..<32]"
    unfolding parseHexSha_def Let_def using parseHexSha_loop_valid [OF ok, of 0 "replicate 32 0"] len
    by simp
  also have "\<dots> = map (\<lambda>k. d ! k) [0..<32]"
    by (rule map_cong) (simp_all add: hb)
  also have "\<dots> = d"
    using assms map_nth [of d] by simp
  finally show ?thesis .
qed

subsection \<open>Control frames: the other types\<close>

lemma length_parseHexSha_loop: "length (parseHexSha_loop s i b) = length b"
proof (induction s i b rule: parseHexSha_loop.induct)
  case (1 s i b)
  show ?case
  proof (cases "i < 32")
    case False
    then show ?thesis by (subst parseHexSha_loop.simps) simp
  next
    case True
    obtain hi ok1 where h: "hexval (s ! (i * 2)) = (hi, ok1)" by (cases "hexval (s ! (i * 2))")
    obtain lo ok2 where l: "hexval (s ! (i * 2 + 1)) = (lo, ok2)" by (cases "hexval (s ! (i * 2 + 1))")
    show ?thesis
    proof (cases "ok1 \<and> ok2")
      case False
      then show ?thesis
        by (subst parseHexSha_loop.simps) (use h l in \<open>simp add: True\<close>)
    next
      case ok: True
      then have "length (parseHexSha_loop s (i + 1) (b[i := push_bit 4 hi OR lo])) = length b"
        using "1.IH" [OF True h [symmetric] refl l [symmetric] refl] by simp
      then show ?thesis
        by (subst parseHexSha_loop.simps) (use h l ok in \<open>simp add: True\<close>)
    qed
  qed
qed

lemma length_parseHexSha [simp]: "length (parseHexSha s) = 32"
  by (simp add: parseHexSha_def Let_def length_parseHexSha_loop)

lemma ucast_chunk: "(c::u64) < 65536 \<Longrightarrow> ucast (ucast c :: u16) = c"
proof -
  assume "c < 65536"
  then have m: "c AND mask 16 = c" using less_mask_eq [of c 16] by simp
  have "(ucast (ucast c :: u16) :: u64) = c AND mask 16"
    by (rule bit_word_eqI) (auto simp: bit_simps)
  with m show ?thesis by simp
qed

lemma tag_simps:
  "ctrlTypeREQ \<noteq> ctrlTypeMETA" "ctrlTypeREQ \<noteq> ctrlTypeERR" "ctrlTypeREQ \<noteq> ctrlTypeEOF"
  "ctrlTypeREQ \<noteq> ctrlTypeNACK" "ctrlTypeREQ \<noteq> ctrlTypeLIST" "ctrlTypeREQ \<noteq> ctrlTypeLST"
  "ctrlTypeMETA \<noteq> ctrlTypeERR" "ctrlTypeMETA \<noteq> ctrlTypeEOF" "ctrlTypeMETA \<noteq> ctrlTypeNACK"
  "ctrlTypeMETA \<noteq> ctrlTypeLIST" "ctrlTypeMETA \<noteq> ctrlTypeLST"
  "ctrlTypeERR \<noteq> ctrlTypeEOF" "ctrlTypeERR \<noteq> ctrlTypeNACK" "ctrlTypeERR \<noteq> ctrlTypeLIST"
  "ctrlTypeERR \<noteq> ctrlTypeLST" "ctrlTypeEOF \<noteq> ctrlTypeNACK" "ctrlTypeEOF \<noteq> ctrlTypeLIST"
  "ctrlTypeEOF \<noteq> ctrlTypeLST" "ctrlTypeNACK \<noteq> ctrlTypeLIST" "ctrlTypeNACK \<noteq> ctrlTypeLST"
  "ctrlTypeLIST \<noteq> ctrlTypeLST"
  by (simp_all add: ctrlTypeREQ_def ctrlTypeMETA_def ctrlTypeERR_def ctrlTypeEOF_def
      ctrlTypeNACK_def ctrlTypeLIST_def ctrlTypeLST_def)

lemma DecodeCtrl_CtrlREQ:
  assumes "length path \<le> 65535"
  shows "DecodeCtrl (CtrlREQ path) = Inr (TypeREQ, Req path)"
proof -
  have "parseCtrl (CtrlREQ path) = Inr (ctrlTypeREQ, path)"
    unfolding CtrlREQ_def packREQ_def Let_def using assms by (intro parseCtrl_fits) simp
  then show ?thesis
    by (simp add: DecodeCtrl_def tagged_def unpackREQ_def)
qed

lemma DecodeCtrl_CtrlEOF: "DecodeCtrl CtrlEOF = Inr (TypeEOF, EOFMsg)"
proof -
  have "parseCtrl (ctrlHeader ctrlTypeEOF (length ([]::bytes)) @ []) = Inr (ctrlTypeEOF, [])"
    by (rule parseCtrl_fits) simp
  then have "parseCtrl CtrlEOF = Inr (ctrlTypeEOF, [])"
    by (simp add: CtrlEOF_def packEOF_def)
  then show ?thesis
    by (simp add: DecodeCtrl_def tagged_def unpackEOF_def tag_simps tag_simps [symmetric])
qed

lemma DecodeCtrl_CtrlLIST: "DecodeCtrl CtrlLIST = Inr (TypeLIST, ListMsg)"
proof -
  have "parseCtrl (ctrlHeader ctrlTypeLIST (length ([]::bytes)) @ []) = Inr (ctrlTypeLIST, [])"
    by (rule parseCtrl_fits) simp
  then have "parseCtrl CtrlLIST = Inr (ctrlTypeLIST, [])"
    by (simp add: CtrlLIST_def packLIST_def)
  then show ?thesis
    by (simp add: DecodeCtrl_def tagged_def tag_simps tag_simps [symmetric])
qed

lemma DecodeCtrl_CtrlERR:
  assumes "length msg \<le> 65531"
  shows "DecodeCtrl (CtrlERR msg) = Inr (TypeERR, ErrMsg msg)"
proof -
  define code where "code = PutUint16 1"
  define ml where "ml = PutUint16 (of_nat (length msg))"
  define payload where "payload = code @ ml @ msg"
  have lc: "length code = 2" and lm: "length ml = 2"
    by (simp_all add: code_def ml_def)
  have len: "length payload = 4 + length msg"
    by (simp add: payload_def lc lm)
  have pc: "parseCtrl (CtrlERR msg) = Inr (ctrlTypeERR, payload)"
    unfolding CtrlERR_def packERR_def Let_def code_def [symmetric] ml_def [symmetric]
      payload_def [symmetric]
    using assms by (intro parseCtrl_fits) (simp add: len)
  have s1: "sub payload 2 4 = ml"
    by (simp add: payload_def sub_def lc lm)
  have n: "unat (Uint16 ml) = length msg"
    using assms by (simp add: ml_def Uint16_PutUint16 unat_of_nat16)
  have s2: "sub payload 4 (4 + length msg) = msg"
    by (simp add: payload_def sub_def lc lm)
  have "unpackERR payload = Inr (ErrMsg msg)"
    unfolding unpackERR_def Let_def s1 n s2 by (simp add: len)
  then show ?thesis
    by (simp add: DecodeCtrl_def pc tagged_def tag_simps tag_simps [symmetric])
qed

lemma parseCtrl_CtrlMETA:
  "parseCtrl (CtrlMETA m) =
     Inr (ctrlTypeMETA, take ((48 + length (mFilename m)) mod 65536)
        (PutUint32 (mTotal m) @ PutUint64 (mSize m) @ PutUint16 (ucast (mChunk m))
           @ PutUint16 (of_nat (length (mFilename m))) @ mFilename m @ parseHexSha (mSHA256 m)))"
proof -
  define payload where "payload = PutUint32 (mTotal m) @ PutUint64 (mSize m) @ PutUint16 (ucast (mChunk m))
           @ PutUint16 (of_nat (length (mFilename m))) @ mFilename m @ parseHexSha (mSHA256 m)"
  have len: "length payload = 48 + length (mFilename m)"
    by (simp add: payload_def)
  have "(48 + length (mFilename m)) mod 65536 \<le> length payload"
    unfolding len by (rule mod_less_eq_dividend)
  then show ?thesis
    unfolding CtrlMETA_def packMETA_def Let_def payload_def [symmetric]
    by (simp add: parseCtrl_frame len)
qed

lemma DecodeCtrl_CtrlMETA:
  assumes fn: "length (mFilename m) \<le> 65487" and ch: "mChunk m < 65536"
    and sha: "valid_sha (mSHA256 m)"
  shows "DecodeCtrl (CtrlMETA m) = Inr (TypeMETA, MetaMsg m)"
proof -
  define a where "a = PutUint32 (mTotal m)"
  define b where "b = PutUint64 (mSize m)"
  define c where "c = PutUint16 (ucast (mChunk m))"
  define d where "d = PutUint16 (of_nat (length (mFilename m)))"
  define h where "h = parseHexSha (mSHA256 m)"
  define payload where "payload = a @ b @ c @ d @ mFilename m @ h"
  have l: "length a = 4" "length b = 8" "length c = 2" "length d = 2" "length h = 32"
    by (simp_all add: a_def b_def c_def d_def h_def)
  have len: "length payload = 48 + length (mFilename m)"
    by (simp add: payload_def l)
  have pc: "parseCtrl (CtrlMETA m) = Inr (ctrlTypeMETA, payload)"
    unfolding parseCtrl_CtrlMETA a_def [symmetric] b_def [symmetric] c_def [symmetric]
      d_def [symmetric] h_def [symmetric] payload_def [symmetric]
    using fn by (simp add: len)
  have s: "sub payload 0 4 = a" "sub payload 4 12 = b" "sub payload 12 14 = c" "sub payload 14 16 = d"
    by (simp_all add: payload_def sub_def l)
  have n: "unat (Uint16 d) = length (mFilename m)"
    using fn by (simp add: d_def Uint16_PutUint16 unat_of_nat16)
  have t: "sub payload 16 (16 + length (mFilename m)) = mFilename m"
    "sub payload (16 + length (mFilename m)) (16 + length (mFilename m) + 32) = h"
    by (simp_all add: payload_def sub_def l)
  have v: "Uint32 a = mTotal m" "Uint64 b = mSize m" "ucast (Uint16 c) = mChunk m"
    "fmtHash h = mSHA256 m"
    by (simp_all add: a_def b_def c_def h_def Uint32_PutUint32 Uint64_PutUint64 Uint16_PutUint16
        ucast_chunk [OF ch] fmtHash_parseHexSha [OF sha])
  have "unpackMETA payload = Inr (MetaMsg m)"
    unfolding unpackMETA_def Let_def s n t v by (simp add: len)
  then show ?thesis
    by (simp add: DecodeCtrl_def pc tagged_def tag_simps tag_simps [symmetric])
qed

lemma DecodeCtrl_CtrlMETA_long:
  assumes "65488 \<le> length (mFilename m)" "length (mFilename m) \<le> 65535"
  shows "DecodeCtrl (CtrlMETA m) = Inl ShortMETA"
proof -
  define payload where "payload = PutUint32 (mTotal m) @ PutUint64 (mSize m) @ PutUint16 (ucast (mChunk m))
           @ PutUint16 (of_nat (length (mFilename m))) @ mFilename m @ parseHexSha (mSHA256 m)"
  define l where "l = (48 + length (mFilename m)) mod 65536"
  have "l = length (mFilename m) - 65488"
    using assms by (simp add: l_def mod_if)
  then have l: "l < 48"
    using assms by simp
  have pc: "parseCtrl (CtrlMETA m) = Inr (ctrlTypeMETA, take l payload)"
    unfolding parseCtrl_CtrlMETA payload_def l_def ..
  have "length (take l payload) < 48"
    using l by simp
  then have "unpackMETA (take l payload) = Inl ShortMETA"
    unfolding unpackMETA_def by simp
  then show ?thesis
    by (simp add: DecodeCtrl_def pc tagged_def tag_simps tag_simps [symmetric])
qed

lemma length_concat_names:
  "length (concat (map (\<lambda>n. PutUint16 (of_nat (length n)) @ n) names)) = (\<Sum>n\<leftarrow>names. 2 + length n)"
  by (induction names) simp_all

lemma unpackLST_loop_read:
  "length pre = off \<Longrightarrow> \<forall>n\<in>set names. length n < 65536 \<Longrightarrow>
   unpackLST_loop (length names) off (pre @ concat (map (\<lambda>n. PutUint16 (of_nat (length n)) @ n) names))
     = Inr names"
proof (induction names arbitrary: pre off)
  case Nil
  then show ?case by simp
next
  case (Cons n ns)
  define e where "e = PutUint16 (of_nat (length n) :: u16)"
  define rest where "rest = concat (map (\<lambda>n. PutUint16 (of_nat (length n)) @ n) ns)"
  define p where "p = pre @ e @ n @ rest"
  have le: "length e = 2" by (simp add: e_def)
  have len: "length p = off + 2 + length n + length rest"
    using Cons.prems(1) by (simp add: p_def le)
  have s1: "sub p off (off + 2) = e"
    using Cons.prems(1) by (simp add: p_def sub_def le)
  have l: "unat (Uint16 e) = length n"
    using Cons.prems(2) by (simp add: e_def Uint16_PutUint16 unat_of_nat16)
  have s2: "sub p (off + 2) (off + 2 + length n) = n"
    using Cons.prems(1) by (simp add: p_def sub_def le)
  have "unpackLST_loop (length ns) (off + 2 + length n) ((pre @ e @ n) @ rest) = Inr ns"
    unfolding rest_def using Cons.prems by (intro Cons.IH) (simp_all add: le)
  then have IH: "unpackLST_loop (length ns) (off + 2 + length n) p = Inr ns"
    by (simp add: p_def)
  have "unpackLST_loop (Suc (length ns)) off p = Inr (n # ns)"
    unfolding unpackLST_loop.simps Let_def s1 l s2 IH by (simp add: len)
  then show ?case
    by (simp add: p_def e_def rest_def)
qed

lemma DecodeCtrl_CtrlLST:
  assumes "2 + (\<Sum>n\<leftarrow>names. 2 + length n) \<le> 65535"
  shows "DecodeCtrl (CtrlLST names) = Inr (TypeLST, Lst names)"
proof -
  define cnt where "cnt = PutUint16 (of_nat (length names))"
  define body where "body = concat (map (\<lambda>n. PutUint16 (of_nat (length n)) @ n) names)"
  define payload where "payload = cnt @ body"
  have lc: "length cnt = 2" by (simp add: cnt_def)
  have lb: "length body = (\<Sum>n\<leftarrow>names. 2 + length n)"
    by (simp add: body_def length_concat_names)
  have len: "length payload < 65536"
    using assms by (simp add: payload_def lc lb)
  have each: "\<forall>n\<in>set names. length n < 65536"
  proof
    fix n assume "n \<in> set names"
    then have "2 + length n \<le> (\<Sum>n\<leftarrow>names. 2 + length n)"
      by (intro member_le_sum_list) auto
    with assms show "length n < 65536" by simp
  qed
  have "length names \<le> (\<Sum>n\<leftarrow>names. 2 + length n)"
    by (induction names) simp_all
  with assms have cn: "length names < 65536" by simp
  have pc: "parseCtrl (CtrlLST names) = Inr (ctrlTypeLST, payload)"
    unfolding CtrlLST_def packLST_def Let_def cnt_def [symmetric] body_def [symmetric]
      payload_def [symmetric]
    using len by (rule parseCtrl_fits)
  have s: "sub payload 0 2 = cnt"
    by (simp add: payload_def sub_def lc)
  have n: "unat (Uint16 cnt) = length names"
    using cn by (simp add: cnt_def Uint16_PutUint16 unat_of_nat16)
  have loop: "unpackLST_loop (length names) 2 payload = Inr names"
    unfolding payload_def body_def using lc each by (rule unpackLST_loop_read)
  have "unpackLST payload = Inr (Lst names)"
    unfolding unpackLST_def Let_def s n loop by (simp add: payload_def lc)
  then show ?thesis
    by (simp add: DecodeCtrl_def pc tagged_def tag_simps tag_simps [symmetric])
qed

lemma is_lower_hex_hexdigits: "\<forall>c\<in>set hexdigits. is_lower_hex c"
  by code_simp

lemma valid_sha_fmtHash:
  assumes "length d = 32"
  shows "valid_sha (fmtHash d)"
proof -
  have "list_all is_lower_hex (fmtHash d)"
    unfolding fmtHash_def list_all_iff
  proof
    fix c assume "c \<in> set (concat (map (\<lambda>v. [hexdigits ! unat (drop_bit 4 v), hexdigits ! unat (v AND 0x0f)]) d))"
    then obtain v :: byte where "c = hexdigits ! unat (drop_bit 4 v) \<or> c = hexdigits ! unat (v AND 0x0f)"
      by auto
    moreover have "unat (drop_bit 4 v) < length hexdigits" "unat (v AND 0x0f) < length hexdigits"
      using nib_lt1 [of v] nib_lt2 [of v] by (simp_all add: hexdigits_codes word_less_nat_alt)
    ultimately have "c \<in> set hexdigits"
      using nth_mem by metis
    then show "is_lower_hex c"
      using is_lower_hex_hexdigits by blast
  qed
  then show ?thesis
    by (simp add: valid_sha_def length_fmtHash assms)
qed

text \<open>
  C5 (as stated). The claim takes every META whose filename has at most 65535 bytes as
  valid. The payload of META is 48 bytes longer than the filename and its length is sent
  in 16 bits: from 65488 bytes on the length wraps around and decoding fails.
\<close>

theorem CtrlMETA_long_filename_counterexample:
  "length (mFilename longNameMeta) \<le> 65535 \<and> mChunk longNameMeta < 65536 \<and>
   0 \<le> sint (mSize longNameMeta) \<and> valid_sha (mSHA256 longNameMeta) \<and>
   DecodeCtrl (CtrlMETA longNameMeta) = Inl ShortMETA \<and>
   DecodeCtrl (CtrlMETA longNameMeta) \<noteq> Inr (TypeMETA, MetaMsg longNameMeta)"
proof -
  have "DecodeCtrl (CtrlMETA longNameMeta) = Inl ShortMETA"
    by (rule DecodeCtrl_CtrlMETA_long) (simp_all add: longNameMeta_def)
  moreover have "valid_sha (mSHA256 longNameMeta)"
    by (simp add: longNameMeta_def valid_sha_def is_lower_hex_def list_all_iff)
  ultimately show ?thesis
    by (simp add: longNameMeta_def)
qed

text \<open>
  C5 (amended). For every control frame whose payload fits the 16-bit payload length,
  \<open>DecodeCtrl\<close> of the encoder returns the same type tag and equal fields: a REQ path
  of at most 65535 bytes; a META whose filename has at most 65487 bytes, whose Chunk fits
  16 bits and whose SHA256 is 64 lowercase hexadecimal characters; an ERR message of at
  most 65531 bytes; EOF; a NACK of at most 16383 sequences; LIST; a LST whose payload
  of 2 bytes plus 2 bytes and the name for each entry has at most 65535 bytes. The
  32 bytes of every SHA-256 digest survive the META round trip.
\<close>

theorem DecodeCtrl_roundtrip:
  "(length path \<le> 65535 \<longrightarrow> DecodeCtrl (CtrlREQ path) = Inr (TypeREQ, Req path)) \<and>
   (length (mFilename m) \<le> 65487 \<and> mChunk m < 65536 \<and> valid_sha (mSHA256 m) \<longrightarrow>
      DecodeCtrl (CtrlMETA m) = Inr (TypeMETA, MetaMsg m)) \<and>
   (length (mFilename m) \<le> 65487 \<and> mChunk m < 65536 \<and> length d = 32 \<longrightarrow>
      DecodeCtrl (CtrlMETA (m\<lparr>mSHA256 := fmtHash d\<rparr>)) = Inr (TypeMETA, MetaMsg (m\<lparr>mSHA256 := fmtHash d\<rparr>)) \<and>
      parseHexSha (fmtHash d) = d) \<and>
   (length msg \<le> 65531 \<longrightarrow> DecodeCtrl (CtrlERR msg) = Inr (TypeERR, ErrMsg msg)) \<and>
   DecodeCtrl CtrlEOF = Inr (TypeEOF, EOFMsg) \<and>
   (length missing \<le> 16383 \<longrightarrow> DecodeCtrl (CtrlNACK missing) = Inr (TypeNACK, Nack missing)) \<and>
   DecodeCtrl CtrlLIST = Inr (TypeLIST, ListMsg) \<and>
   (2 + (\<Sum>n\<leftarrow>names. 2 + length n) \<le> 65535 \<longrightarrow>
      DecodeCtrl (CtrlLST names) = Inr (TypeLST, Lst names))"
proof -
  have sha: "DecodeCtrl (CtrlMETA (m\<lparr>mSHA256 := fmtHash d\<rparr>)) = Inr (TypeMETA, MetaMsg (m\<lparr>mSHA256 := fmtHash d\<rparr>))"
    if "length (mFilename m) \<le> 65487" "mChunk m < 65536" "length d = 32"
    using that by (intro DecodeCtrl_CtrlMETA) (simp_all add: valid_sha_fmtHash)
  show ?thesis
    using sha
    by (simp add: DecodeCtrl_CtrlREQ DecodeCtrl_CtrlMETA DecodeCtrl_CtrlERR DecodeCtrl_CtrlEOF
        CtrlNACK_small DecodeCtrl_CtrlLIST DecodeCtrl_CtrlLST parseHexSha_fmtHash)
qed

text \<open>One frame of each type with a payload, encoded and decoded.\<close>

theorem DecodeCtrl_roundtrip_witness:
  "DecodeCtrl (CtrlREQ (bytes_of ''a.txt'')) = Inr (TypeREQ, Req (bytes_of ''a.txt'')) \<and>
   DecodeCtrl (CtrlMETA \<lparr>mFilename = bytes_of ''a.txt'', mTotal = 2, mSize = 1025,
       mSHA256 = bytes_of ''e3b0c44298fc1c149afbf4c8996fb92427ae41e4649b934ca495991b7852b855'', mChunk = 1024\<rparr>)
     = Inr (TypeMETA, MetaMsg \<lparr>mFilename = bytes_of ''a.txt'', mTotal = 2, mSize = 1025,
       mSHA256 = bytes_of ''e3b0c44298fc1c149afbf4c8996fb92427ae41e4649b934ca495991b7852b855'', mChunk = 1024\<rparr>) \<and>
   parseHexSha (fmtHash (replicate 32 0xA5)) = replicate 32 0xA5 \<and>
   DecodeCtrl (CtrlERR (bytes_of ''no such file'')) = Inr (TypeERR, ErrMsg (bytes_of ''no such file'')) \<and>
   DecodeCtrl (CtrlNACK [3, 7]) = Inr (TypeNACK, Nack [3, 7]) \<and>
   DecodeCtrl (CtrlLST [bytes_of ''a.txt'', bytes_of ''b.bin'']) = Inr (TypeLST, Lst [bytes_of ''a.txt'', bytes_of ''b.bin''])"
proof -
  let ?m = "\<lparr>mFilename = bytes_of ''a.txt'', mTotal = 2, mSize = 1025,
       mSHA256 = bytes_of ''e3b0c44298fc1c149afbf4c8996fb92427ae41e4649b934ca495991b7852b855'', mChunk = 1024\<rparr>"
  have v: "valid_sha (bytes_of ''e3b0c44298fc1c149afbf4c8996fb92427ae41e4649b934ca495991b7852b855'')"
    by code_simp
  from DecodeCtrl_roundtrip [of "bytes_of ''a.txt''" ?m "replicate 32 0xA5" "bytes_of ''no such file''"
      "[3, 7]" "[bytes_of ''a.txt'', bytes_of ''b.bin'']"] v
  show ?thesis
    by (simp add: bytes_of_def)
qed

text \<open>A string of the wrong length does give 32 zero bytes.\<close>

lemma parseHexSha_wrong_length: "length s \<noteq> 64 \<Longrightarrow> parseHexSha s = replicate 32 0"
  by (simp add: parseHexSha_def)

text \<open>
  C9. \<^verbatim>\<open>parseHexSha\<close> is documented to return 32 zero bytes on every malformed input. On
  a string of 64 characters whose first two are hexadecimal digits and whose third is not,
  it returns the buffer with the first byte already written.
\<close>

theorem parseHexSha_partial_fill:
  "parseHexSha (bytes_of (''ffzz'' @ replicate 60 (CHR ''0''))) = 0xff # replicate 31 0"
  by code_simp

section \<open>Properties of the drop policy and of the receive state\<close>

lemma unchanged_emit [simp]: "unchanged st (emit on e st') = unchanged st st'"
  by (simp add: unchanged_def emit_def)

lemma stored_emit [simp]: "stored h p st (emit on e st') = stored h p st st'"
  by (simp add: stored_def emit_def)

lemma unchanged_refl [simp]: "unchanged st st"
  by (simp add: unchanged_def)

lemma unchanged_drop [simp]: "unchanged st (st\<lparr>Drop := p\<rparr>)"
  by (simp add: unchanged_def)

lemma processPacket_ctrl:
  "IsCtrl (elems b) \<Longrightarrow> \<exists>eof. processPacket L cb b st = Inr (eof, st)"
  by (auto simp: processPacket_def split: sum.splits)

lemma processPacket_small_cap:
  "\<not> IsCtrl (elems b) \<Longrightarrow> cap b < HeaderSize \<Longrightarrow> processPacket L cb b st = Inl SliceBoundsOutOfRange"
  by (simp add: processPacket_def slice_to_def slice_range_def)

lemma processPacket_bad_header:
  "\<not> IsCtrl (elems b) \<Longrightarrow> HeaderSize \<le> cap b \<Longrightarrow>
   UnpackHeader (take HeaderSize (elems b @ spare b)) = Inl e \<Longrightarrow>
   processPacket L cb b st = Inr (False, st)"
  by (simp add: processPacket_def slice_to_def slice_range_def)

lemma processPacket_short:
  "\<not> IsCtrl (elems b) \<Longrightarrow> HeaderSize \<le> cap b \<Longrightarrow> len b < HeaderSize \<Longrightarrow>
   UnpackHeader (take HeaderSize (elems b @ spare b)) = Inr h \<Longrightarrow>
   processPacket L cb b st = Inl SliceBoundsOutOfRange"
  by (simp add: processPacket_def slice_to_def slice_from_def slice_range_def)

lemma ShouldDrop_None [simp]: "ShouldDrop L None s = (False, None)"
  by (simp add: ShouldDrop_def)

lemma processPacket_data:
  assumes ctrl: "\<not> IsCtrl (elems b)" and long: "HeaderSize \<le> len b"
    and h: "UnpackHeader (take HeaderSize (elems b)) = Inr h"
  shows "\<exists>st'. processPacket L cb b st = Inr (False, st') \<and>
           (if accepted L b h st then stored h (payload_of b h) st st' else unchanged st st')"
proof -
  have hb: "slice_to b HeaderSize = Inr (Slice (take HeaderSize (elems b)) (drop HeaderSize (elems b) @ spare b))"
    using long by (simp add: slice_to_def slice_range_def cap_def len_def)
  obtain q where p0: "slice_from b HeaderSize = Inr q"
    using long by (simp add: slice_from_def slice_range_def cap_def len_def)
  show ?thesis
  proof (cases "len b < HeaderSize + unat (hSize h)")
    case True
    then show ?thesis
      by (simp add: processPacket_def ctrl hb h p0 accepted_def)
  next
    case False
    then have pl: "slice_range b HeaderSize (HeaderSize + unat (hSize h)) =
        Inr (Slice (payload_of b h) (drop (HeaderSize + unat (hSize h)) (elems b @ spare b)))"
      by (simp add: slice_range_def cap_def len_def payload_of_def sub_def)
    have ll: "len (Slice (payload_of b h) r) = unat (hSize h)" for r
      using False by (simp add: payload_of_def sub_def len_def)
    obtain dropit p' where sd: "ShouldDrop L (Drop st) (hSeq h) = (dropit, p')"
      by (cases "ShouldDrop L (Drop st) (hSeq h)")
    have sd': "(if Drop st \<noteq> None then ShouldDrop L (Drop st) (hSeq h) else (False, Drop st)) = (dropit, p')"
      using sd by (cases "Drop st") auto
    have eq: "processPacket L cb b st =
       (let st1 = st\<lparr>Drop := p'\<rparr>
        in if dropit then Inr (False, emit (OnLog cb) (LogDrop (hSeq h)) st1)
           else
             (let computedCRC32 = CRC32 (payload_of b h)
              in if computedCRC32 \<noteq> hCRC32 h
                 then Inr (False, emit (OnLog cb) (LogCRC (hSeq h) (hCRC32 h) computedCRC32) st1)
                 else if recv st1 (hSeq h) \<noteq> None then Inr (False, st1)
                 else
                   (let st2 = st1\<lparr>recv := (recv st1)(hSeq h \<mapsto> payload_of b h),
                                   bytesRecv := bytesRecv st1 + of_nat (unat (hSize h)),
                                   segsRecv := segsRecv st1 + 1\<rparr>;
                        st3 = emit (OnLog cb \<and> hSeq h mod 500 = 0) (LogStatus (hSeq h)) st2;
                        st4 = emit (OnProgress cb) (Progress (bytesRecv st3) (segsRecv st3)) st3
                    in Inr (False, st4))))"
      unfolding processPacket_def
      apply (simp only: ctrl if_False hb sum.case goslice.sel h p0 False pl ll sd' prod.case
          not_not refl if_True not_True_eq_False)
      apply (simp only: Let_def prod.case)
      done
    have len_pl: "length (payload_of b h) = unat (hSize h)"
      using ll [of "[]"] by (simp add: len_def)
    show ?thesis
    proof (cases dropit)
      case True
      then show ?thesis
        by (simp add: eq Let_def accepted_def sd)
    next
      case nd: False
      show ?thesis
      proof (cases "CRC32 (payload_of b h) = hCRC32 h")
        case False
        with nd show ?thesis
          by (simp add: eq Let_def accepted_def sd)
      next
        case crc: True
        show ?thesis
        proof (cases "recv st (hSeq h)")
          case (Some a)
          with nd crc show ?thesis
            by (simp add: eq Let_def accepted_def sd)
        next
          case None
          with nd crc \<open>\<not> len b < HeaderSize + unat (hSize h)\<close> have acc: "accepted L b h st"
            by (simp add: accepted_def sd)
          have "stored h (payload_of b h) st
                  (st\<lparr>Drop := p', recv := (recv st)(hSeq h \<mapsto> payload_of b h),
                      bytesRecv := bytesRecv st + of_nat (unat (hSize h)),
                      segsRecv := segsRecv st + 1\<rparr>)"
            by (simp add: stored_def len_pl)
          with nd crc None acc show ?thesis
            by (simp add: eq Let_def)
        qed
      qed
    qed
  qed
qed

lemma ShouldDrop_cases:
  "ShouldDrop L p s = (r, p') \<Longrightarrow>
     (r \<longrightarrow> s \<notin> dropped_set p \<and> s \<in> dropped_set p') \<and> dropped_set p \<subseteq> dropped_set p'"
  by (auto simp: ShouldDrop_def dropped_set_def Let_def split: option.splits if_splits prod.splits)

lemma drops_of_Nil [simp]: "drops_of s [] rs = 0"
  by (simp add: drops_of_def)

lemma drops_of_Cons [simp]:
  "drops_of s (q # ss) (r # rs) = (if q = s \<and> r then 1 else 0) + drops_of s ss rs"
  by (simp add: drops_of_def)

lemma ShouldDrop_calls_step:
  "ShouldDrop L p q = (r, p') \<Longrightarrow> ShouldDrop_calls L p' ss = (rs, p'') \<Longrightarrow>
   ShouldDrop_calls L p (q # ss) = (r # rs, p'')"
  by simp

lemma ShouldDrop_calls_dropped:
  "dropped_set p \<subseteq> dropped_set (snd (ShouldDrop_calls L p ss))"
proof (induction ss arbitrary: p)
  case Nil
  then show ?case by simp
next
  case (Cons q ss)
  obtain r p' where sd: "ShouldDrop L p q = (r, p')" by (cases "ShouldDrop L p q")
  obtain rs p'' where c: "ShouldDrop_calls L p' ss = (rs, p'')" by (cases "ShouldDrop_calls L p' ss")
  from ShouldDrop_cases [OF sd] have "dropped_set p \<subseteq> dropped_set p'" by simp
  also have "\<dots> \<subseteq> dropped_set p''" using Cons.IH [of p'] c by simp
  finally show ?case unfolding ShouldDrop_calls_step [OF sd c] by simp
qed

lemma ShouldDrop_calls_single_shot:
  "drops_of s ss (fst (ShouldDrop_calls L p ss)) \<le> (if s \<in> dropped_set p then 0 else 1)"
proof (induction ss arbitrary: p)
  case Nil
  then show ?case by simp
next
  case (Cons q ss)
  obtain r p' where sd: "ShouldDrop L p q = (r, p')" by (cases "ShouldDrop L p q")
  obtain rs p'' where c: "ShouldDrop_calls L p' ss = (rs, p'')" by (cases "ShouldDrop_calls L p' ss")
  from Cons.IH [of p'] c have IH: "drops_of s ss rs \<le> (if s \<in> dropped_set p' then 0 else 1)" by simp
  from ShouldDrop_cases [OF sd]
  have a: "r \<Longrightarrow> q \<notin> dropped_set p \<and> q \<in> dropped_set p'" and b: "dropped_set p \<subseteq> dropped_set p'"
    by simp_all
  show ?case
    unfolding ShouldDrop_calls_step [OF sd c]
  proof (cases "q = s \<and> r")
    case True
    with a have "s \<notin> dropped_set p" "s \<in> dropped_set p'" by simp_all
    with IH True show "drops_of s (q # ss) (fst (r # rs, p'')) \<le> (if s \<in> dropped_set p then 0 else 1)"
      by simp
  next
    case False
    with IH b show "drops_of s (q # ss) (fst (r # rs, p'')) \<le> (if s \<in> dropped_set p then 0 else 1)"
      by (auto split: if_splits)
  qed
qed

text \<open>
  C1. For a policy made by \<open>NewDrop\<close> and every sequence \<open>s\<close>, any sequence of calls
  answers true for \<open>s\<close> at most once. Once \<open>s\<close> is in the dropped set, every later
  call for \<open>s\<close> answers false and \<open>s\<close> stays in the set; a call that answers true
  has put \<open>s\<close> into the set. \<open>NewDrop\<close> returns the nil policy when the rate is at
  most 0 and a policy with an empty dropped set when it is above 0; the nil policy always
  answers false.
\<close>

theorem ShouldDrop_single_shot:
  "drops_of s ss (fst (ShouldDrop_calls L (NewDrop L r seed) ss)) \<le> 1 \<and>
   (s \<in> dropped_set p \<longrightarrow>
      drops_of s ss (fst (ShouldDrop_calls L p ss)) = 0 \<and>
      s \<in> dropped_set (snd (ShouldDrop_calls L p ss))) \<and>
   (fst (ShouldDrop L p s) \<longrightarrow> s \<in> dropped_set (snd (ShouldDrop L p s))) \<and>
   (f64_le r (Fin 0) \<longrightarrow> NewDrop L r seed = None) \<and>
   (f64_lt (Fin 0) r \<longrightarrow> NewDrop L r seed \<noteq> None \<and> dropped_set (NewDrop L r seed) = {}) \<and>
   ShouldDrop L None s = (False, None)"
proof -
  have 1: "drops_of s ss (fst (ShouldDrop_calls L (NewDrop L r seed) ss)) \<le> 1"
    using ShouldDrop_calls_single_shot [of s ss L "NewDrop L r seed"] by (simp split: if_splits)
  have 2: "drops_of s ss (fst (ShouldDrop_calls L p ss)) = 0" if "s \<in> dropped_set p"
    using ShouldDrop_calls_single_shot [of s ss L p] that by simp
  have 3: "s \<in> dropped_set (snd (ShouldDrop_calls L p ss))" if "s \<in> dropped_set p"
    using ShouldDrop_calls_dropped [of p L ss] that by blast
  have 4: "s \<in> dropped_set (snd (ShouldDrop L p s))" if "fst (ShouldDrop L p s)"
  proof -
    obtain b p' where sd: "ShouldDrop L p s = (b, p')" by (cases "ShouldDrop L p s")
    from ShouldDrop_cases [OF sd] that sd show ?thesis by simp
  qed
  have 5: "NewDrop L r seed \<noteq> None \<and> dropped_set (NewDrop L r seed) = {}" if "f64_lt (Fin 0) r"
    using that by (cases r) (simp_all add: NewDrop_def f64_le_def dropped_set_def)
  from 1 2 3 4 5 show ?thesis
    by (simp add: NewDrop_def)
qed

text \<open>
  With rate 1/2 and samples 1/4, 3/4, 1/4: sequence 3 is dropped at its first call only,
  sequence 5 passes once and is dropped at its second call.
\<close>

theorem ShouldDrop_single_shot_witness:
  "fst (ShouldDrop_calls stdlib0 (NewDrop stdlib0 (Fin (1 / 2)) 0) [3, 3, 5, 3, 5]) =
     [True, False, False, False, True] \<and>
   drops_of 3 [3, 3, 5, 3, 5] (fst (ShouldDrop_calls stdlib0 (NewDrop stdlib0 (Fin (1 / 2)) 0) [3, 3, 5, 3, 5])) \<le> 1 \<and>
   drops_of 3 [3, 3] (fst (ShouldDrop_calls stdlib0 (Some \<lparr>rate = Fin (1 / 2), rnd = 0, dropped = {3}\<rparr>) [3, 3])) = 0 \<and>
   NewDrop stdlib0 (Fin 0) 0 = None \<and>
   NewDrop stdlib0 (Fin (1 / 2)) 0 \<noteq> None"
proof -
  have a: "fst (ShouldDrop_calls stdlib0 (NewDrop stdlib0 (Fin (1 / 2)) 0) [3, 3, 5, 3, 5]) =
     [True, False, False, False, True]"
    by (simp add: NewDrop_def ShouldDrop_def stdlib0_def f64_le_def)
  from ShouldDrop_single_shot [of 3 "[3, 3, 5, 3, 5]" stdlib0 "Fin (1 / 2)" 0 "Some \<lparr>rate = Fin (1 / 2), rnd = 0, dropped = {3}\<rparr>"]
    ShouldDrop_single_shot [of 3 "[3, 3]" stdlib0 "Fin 0" 0 "Some \<lparr>rate = Fin (1 / 2), rnd = 0, dropped = {3}\<rparr>"]
  show ?thesis
    unfolding a by (simp add: dropped_set_def f64_le_def)
qed

text \<open>
  C2. Every packet that \<open>processPacket\<close> finishes leaves the map and the counters of
  bytes and segments unchanged, or stores its payload: and it stores only a payload whose
  CRC32 equals the field of the header and whose sequence is not yet a key. For a DATA
  packet with a well-formed header: when the length check fails, the drop policy selects
  it, the CRC differs or the sequence is already stored, map and counters stay as they
  are; otherwise the payload is stored under its sequence, the bytes counter grows by the
  length of the payload and the segments counter by one.
\<close>

theorem processPacket_invariant:
  "(processPacket L cb b st = Inr (eof, st') \<longrightarrow>
      unchanged st st' \<or>
      (\<exists>h. UnpackHeader (take HeaderSize (elems b)) = Inr h \<and> accepted L b h st \<and>
           stored h (payload_of b h) st st')) \<and>
   (\<not> IsCtrl (elems b) \<and> HeaderSize \<le> len b \<and> UnpackHeader (take HeaderSize (elems b)) = Inr h \<longrightarrow>
      (\<exists>st''. processPacket L cb b st = Inr (False, st'') \<and>
         (if accepted L b h st then stored h (payload_of b h) st st'' else unchanged st st'')))"
proof (intro conjI impI)
  assume r: "processPacket L cb b st = Inr (eof, st')"
  show "unchanged st st' \<or>
      (\<exists>h. UnpackHeader (take HeaderSize (elems b)) = Inr h \<and> accepted L b h st \<and>
           stored h (payload_of b h) st st')"
  proof (cases "IsCtrl (elems b)")
    case True
    from processPacket_ctrl [OF True, of L cb st] r show ?thesis by auto
  next
    case ctrl: False
    show ?thesis
    proof (cases "cap b < HeaderSize")
      case True
      from processPacket_small_cap [OF ctrl True, of L cb st] r show ?thesis by simp
    next
      case False
      then have cap: "HeaderSize \<le> cap b" by simp
      show ?thesis
      proof (cases "UnpackHeader (take HeaderSize (elems b @ spare b))")
        case (Inl e)
        from processPacket_bad_header [OF ctrl cap Inl, of L cb st] r show ?thesis by simp
      next
        case (Inr h)
        show ?thesis
        proof (cases "len b < HeaderSize")
          case True
          from processPacket_short [OF ctrl cap True Inr, of L cb st] r show ?thesis by simp
        next
          case False
          then have long: "HeaderSize \<le> len b" by simp
          then have h: "UnpackHeader (take HeaderSize (elems b)) = Inr h"
            using Inr by (simp add: len_def)
          from processPacket_data [OF ctrl long h, of L cb st] r h show ?thesis
            by (auto split: if_splits)
        qed
      qed
    qed
  qed
next
  assume "\<not> IsCtrl (elems b) \<and> HeaderSize \<le> len b \<and> UnpackHeader (take HeaderSize (elems b)) = Inr h"
  then show "\<exists>st''. processPacket L cb b st = Inr (False, st'') \<and>
         (if accepted L b h st then stored h (payload_of b h) st st'' else unchanged st st'')"
    using processPacket_data [of b h L cb st] by simp
qed

lemma CRC32_a: "CRC32 [0x61] = 0xE8B7BE43"
  by code_simp

text \<open>
  The packet is stored by a client that has nothing, and ignored by one that holds
  sequence 0 already.
\<close>

theorem processPacket_invariant_witness:
  "(\<exists>st'. processPacket stdlib0 \<lparr>OnLog = True, OnProgress = True\<rparr>
             (read_into (HeaderSize + ChunkSize) packet_a) client0 = Inr (False, st') \<and>
          recv st' = [0 \<mapsto> [0x61]] \<and> bytesRecv st' = 1 \<and> segsRecv st' = 1) \<and>
   (\<exists>st'. processPacket stdlib0 \<lparr>OnLog = True, OnProgress = True\<rparr>
             (read_into (HeaderSize + ChunkSize) packet_a) (client0\<lparr>recv := [0 \<mapsto> [0x62]]\<rparr>) = Inr (False, st') \<and>
          recv st' = [0 \<mapsto> [0x62]] \<and> bytesRecv st' = 0 \<and> segsRecv st' = 0)"
proof -
  let ?b = "read_into (HeaderSize + ChunkSize) packet_a"
  let ?h = "\<lparr>hSeq = 0, hTotal = 1, hSize = 1, hCRC32 = 0xE8B7BE43\<rparr>"
  let ?cb = "\<lparr>OnLog = True, OnProgress = True\<rparr>"
  have e: "elems ?b = packet_a"
    by (simp add: read_into_def packet_a_def HeaderSize_def dataHeaderSize_def ChunkSize_def)
  have c: "\<not> IsCtrl (elems ?b)"
    unfolding e by (simp add: IsCtrl_def packet_a_def)
  have l: "HeaderSize \<le> len ?b"
    unfolding len_def e by (simp add: packet_a_def HeaderSize_def dataHeaderSize_def)
  have h: "UnpackHeader (take HeaderSize (elems ?b)) = Inr ?h"
    unfolding e
    by (simp add: packet_a_def HeaderSize_def dataHeaderSize_def UnpackHeader_def sub_def
        ProtocolVersion_def Uint32_def Uint16_def)
  have p: "payload_of ?b ?h = [0x61]"
    unfolding payload_of_def e by (simp add: packet_a_def sub_def HeaderSize_def dataHeaderSize_def)
  have lb: "len ?b = 19"
    unfolding len_def e by (simp add: packet_a_def)
  have a1: "accepted stdlib0 ?b ?h client0"
    unfolding accepted_def p lb by (simp add: CRC32_a client0_def HeaderSize_def dataHeaderSize_def)
  have a2: "\<not> accepted stdlib0 ?b ?h (client0\<lparr>recv := [0 \<mapsto> [0x62]]\<rparr>)"
    unfolding accepted_def by simp
  from processPacket_invariant [of stdlib0 ?cb ?b client0 False client0 ?h] c l h a1
  have 1: "\<exists>st'. processPacket stdlib0 ?cb ?b client0 = Inr (False, st') \<and> stored ?h [0x61] client0 st'"
    by (simp add: p)
  from processPacket_invariant [of stdlib0 ?cb ?b "client0\<lparr>recv := [0 \<mapsto> [0x62]]\<rparr>" False client0 ?h] c l h a2
  have 2: "\<exists>st'. processPacket stdlib0 ?cb ?b (client0\<lparr>recv := [0 \<mapsto> [0x62]]\<rparr>) = Inr (False, st') \<and>
      unchanged (client0\<lparr>recv := [0 \<mapsto> [0x62]]\<rparr>) st'"
    by simp
  from 1 2 show ?thesis
    by (simp add: stored_def unchanged_def client0_def)
qed

text \<open>
  Every datagram of 3 to 17 bytes that starts with the magic of DATA and the version
  makes \<open>processPacket\<close> panic, when it is read as the receive loops read it.
\<close>

lemma processPacket_short_panics:
  assumes "3 \<le> length d" "length d < HeaderSize"
    and "d ! 0 = 0x55" "d ! 1 = 0x44" "d ! 2 = ProtocolVersion"
  shows "processPacket L cb (read_into (HeaderSize + ChunkSize) d) st = Inl SliceBoundsOutOfRange"
proof -
  let ?b = "read_into (HeaderSize + ChunkSize) d"
  have hs: "HeaderSize = 18"
    by (simp add: HeaderSize_def dataHeaderSize_def)
  have e: "elems ?b = d" and s: "spare ?b = replicate (1042 - length d) 0"
    using assms(2) by (simp_all add: read_into_def hs ChunkSize_def)
  have c: "\<not> IsCtrl (elems ?b)"
    unfolding e using assms(4) by (simp add: IsCtrl_def)
  have cap: "HeaderSize \<le> cap ?b" and l: "len ?b < HeaderSize"
    unfolding cap_def len_def e s using assms(2) by (simp_all add: hs)
  define hb where "hb = take HeaderSize (elems ?b @ spare ?b)"
  have len: "length hb = 18"
    unfolding hb_def e s using assms(2) by (simp add: hs)
  have n: "hb ! 0 = 0x55" "hb ! 1 = 0x44" "hb ! 2 = ProtocolVersion"
    unfolding hb_def e s using assms by (auto simp: hs nth_append)
  have "\<exists>h. UnpackHeader hb = Inr h"
    unfolding UnpackHeader_def using n by (simp add: len dataHeaderSize_def)
  then obtain h where "UnpackHeader (take HeaderSize (elems ?b @ spare ?b)) = Inr h"
    unfolding hb_def ..
  with c cap l show ?thesis by (rule processPacket_short)
qed

text \<open>
  C8. A datagram is to be handled or discarded without a runtime fault. The client reads
  the 3 bytes \<open>U\<close>, \<open>D\<close>, 1 into its buffer of 1042 zero bytes. \<^verbatim>\<open>b[:18]\<close> is within
  the capacity and shows the zeros behind the datagram, so the header parses; then
  \<^verbatim>\<open>b[18:]\<close> is out of range for a slice of length 3 and panics, before the length
  check that follows it.
\<close>

theorem processPacket_short_datagram_panics:
  "processPacket L cb (read_into (HeaderSize + ChunkSize) [0x55, 0x44, 0x01]) st = Inl SliceBoundsOutOfRange"
proof -
  let ?b = "read_into (HeaderSize + ChunkSize) [0x55, 0x44, 0x01]"
  have e: "elems ?b = [0x55, 0x44, 0x01]" and s: "spare ?b = replicate 1039 0"
    by (simp_all add: read_into_def HeaderSize_def dataHeaderSize_def ChunkSize_def)
  have c: "\<not> IsCtrl (elems ?b)"
    unfolding e by (simp add: IsCtrl_def)
  have cap: "HeaderSize \<le> cap ?b" and l: "len ?b < HeaderSize"
    unfolding cap_def len_def e s by (simp_all add: HeaderSize_def dataHeaderSize_def)
  have t: "take HeaderSize (elems ?b @ spare ?b) = [0x55, 0x44, 0x01] @ replicate 15 0"
    unfolding e s by (simp add: HeaderSize_def dataHeaderSize_def)
  have h: "UnpackHeader (take HeaderSize (elems ?b @ spare ?b)) =
      Inr \<lparr>hSeq = 0, hTotal = 0, hSize = 0, hCRC32 = 0\<rparr>"
    unfolding t
    by (simp add: UnpackHeader_def dataHeaderSize_def ProtocolVersion_def sub_def Uint32_def Uint16_def
        nth_append)
  from c cap l h show ?thesis by (rule processPacket_short)
qed

section \<open>Properties of the phases of a transfer\<close>

declare sendREQ_loop.simps [simp del]
declare runNackRounds_loop.simps [simp del]

lemma sendREQ_loop_silent:
  "sendREQ_loop cfg t attempts \<lparr>inbox = [], sent = s, write_ok = True\<rparr> =
     (Failed MetaExhausted,
      \<lparr>inbox = [], sent = s @ replicate (nat (attempts + 1 - t)) (CtrlREQ (Path cfg)), write_ok = True\<rparr>)"
proof (induction "nat (attempts + 1 - t)" arbitrary: t s)
  case 0
  then have "\<not> t \<le> attempts" by simp
  with 0 show ?case
    by (subst sendREQ_loop.simps) simp
next
  case (Suc k)
  then have le: "t \<le> attempts" and k: "k = nat (attempts + 1 - (t + 1))" by simp_all
  have r: "replicate (nat (attempts + 1 - t)) (CtrlREQ (Path cfg)) =
      CtrlREQ (Path cfg) # replicate (nat (attempts + 1 - (t + 1))) (CtrlREQ (Path cfg))"
    using Suc.hyps(2) k by (metis replicate_Suc)
  show ?case
    by (subst sendREQ_loop.simps) (simp add: le Let_def Suc.hyps(1) [OF k] r)
qed

lemma sendREQ_loop_bound:
  "length (sent (snd (sendREQ_loop cfg t attempts n))) \<le> length (sent n) + nat (attempts + 1 - t)"
proof (induction "nat (attempts + 1 - t)" arbitrary: t n)
  case 0
  then have "\<not> t \<le> attempts" by simp
  then show ?case
    by (subst sendREQ_loop.simps) simp
next
  case (Suc k)
  then have le: "t \<le> attempts" and k: "k = nat (attempts + 1 - (t + 1))" by simp_all
  let ?n1 = "n\<lparr>sent := sent n @ [CtrlREQ (Path cfg)]\<rparr>"
  let ?n2 = "?n1\<lparr>inbox := snd (awaitMeta (inbox ?n1))\<rparr>"
  have IH: "length (sent (snd (sendREQ_loop cfg (t + 1) attempts ?n2)))
      \<le> length (sent ?n2) + nat (attempts + 1 - (t + 1))"
    by (rule Suc.hyps(1) [OF k])
  have s: "nat (attempts + 1 - t) = Suc (nat (attempts + 1 - (t + 1)))"
    using Suc.hyps(2) k by simp
  show ?case
  proof (cases "write_ok n")
    case False
    then show ?thesis
      by (subst sendREQ_loop.simps) (simp add: le)
  next
    case True
    show ?thesis
      using IH
      by (subst sendREQ_loop.simps) (simp add: le True Let_def s split: meta_wait.split)
  qed
qed

lemma computeMissing_empty: "computeMissing t Map.empty = map of_nat [0..<unat t]"
  by (simp add: computeMissing_def)

lemma runNackRounds_loop_silent:
  assumes "computeMissing (mTotal meta) (recv st) \<noteq> []"
  shows "runNackRounds_loop L cb meta maxRounds rounds \<lparr>inbox = [], sent = s, write_ok = True\<rparr> st =
     (Failed NackExhausted,
      \<lparr>inbox = [],
       sent = s @ replicate (nat (maxRounds - rounds))
                    (CtrlNACK (nackList cb (computeMissing (mTotal meta) (recv st)))),
       write_ok = True\<rparr>, st)"
proof (induction "nat (maxRounds - rounds)" arbitrary: rounds s)
  case 0
  then have "maxRounds \<le> rounds" by simp
  with 0 assms show ?case
    by (subst runNackRounds_loop.simps) simp
next
  case (Suc k)
  then have lt: "\<not> maxRounds \<le> rounds" and k: "k = nat (maxRounds - (rounds + 1))" by simp_all
  let ?f = "CtrlNACK (nackList cb (computeMissing (mTotal meta) (recv st)))"
  have r: "replicate (nat (maxRounds - rounds)) ?f = ?f # replicate (nat (maxRounds - (rounds + 1))) ?f"
    using Suc.hyps(2) k by (metis replicate_Suc)
  show ?case
    by (subst runNackRounds_loop.simps) (simp add: lt assms Let_def Suc.hyps(1) [OF k] r)
qed

lemma runNackRounds_loop_bound:
  "length (sent (fst (snd (runNackRounds_loop L cb meta maxRounds rounds n st))))
     \<le> length (sent n) + nat (maxRounds - rounds)"
proof (induction "nat (maxRounds - rounds)" arbitrary: rounds n st)
  case 0
  then have "maxRounds \<le> rounds" by simp
  then show ?case
    by (subst runNackRounds_loop.simps) (simp add: Let_def)
next
  case (Suc k)
  then have lt: "\<not> maxRounds \<le> rounds" and k: "k = nat (maxRounds - (rounds + 1))" by simp_all
  have s: "nat (maxRounds - rounds) = Suc (nat (maxRounds - (rounds + 1)))"
    using Suc.hyps(2) k by simp
  define missing where "missing = computeMissing (mTotal meta) (recv st)"
  define n1 where "n1 = (if write_ok n then n\<lparr>sent := sent n @ [CtrlNACK (nackList cb missing)]\<rparr> else n)"
  define r where "r = nackRound_recv L cb (inbox n1) st"
  define n2 where "n2 = n1\<lparr>inbox := fst (snd r)\<rparr>"
  have IH: "length (sent (fst (snd (runNackRounds_loop L cb meta maxRounds (rounds + 1) n2 (snd (snd r))))))
      \<le> length (sent n2) + nat (maxRounds - (rounds + 1))"
    by (rule Suc.hyps(1) [OF k])
  have l2: "length (sent n2) \<le> Suc (length (sent n))"
    by (simp add: n2_def n1_def)
  have eq: "runNackRounds_loop L cb meta maxRounds rounds n st =
     (if (case inbox n of Cancel # rest \<Rightarrow> True | _ \<Rightarrow> False) then (Failed Canceled, n, st)
      else if length missing = 0 then (Returned (), n, st)
      else (case fst r of
              Returned u \<Rightarrow> runNackRounds_loop L cb meta maxRounds (rounds + 1) n2 (snd (snd r))
            | Failed e \<Rightarrow> (Failed e, n2, snd (snd r))
            | Panicked \<Rightarrow> (Panicked, n2, snd (snd r))))"
    by (subst runNackRounds_loop.simps)
      (simp only: Let_def lt if_False missing_def n1_def r_def n2_def)
  show ?case
    unfolding eq s using IH l2
    by (auto split: attempt.split)
qed

lemma processPacket_EOF:
  "processPacket L cb (read_into (HeaderSize + ChunkSize) CtrlEOF) st = Inr (True, st)"
proof -
  have f: "CtrlEOF = [0x55, 0x43, 1, 4, 0, 0]"
    by (simp add: CtrlEOF_def packEOF_def ctrlHeader_def ctrlMagic0_def ctrlMagic1_def
        ProtocolVersion_def ctrlTypeEOF_def PutUint16_def)
  have e: "elems (read_into (HeaderSize + ChunkSize) CtrlEOF) = CtrlEOF"
    by (simp add: read_into_def f HeaderSize_def dataHeaderSize_def ChunkSize_def)
  have c: "IsCtrl CtrlEOF"
    by (simp add: f IsCtrl_def)
  show ?thesis
    by (simp add: processPacket_def e c DecodeCtrl_CtrlEOF)
qed

lemma sendREQAndGetMeta_silent:
  "sendREQAndGetMeta cfg \<lparr>inbox = [], sent = [], write_ok = True\<rparr> =
     (Failed MetaExhausted,
      \<lparr>inbox = [],
       sent = replicate (nat (if Retries cfg \<le> 0 then 3 else Retries cfg)) (CtrlREQ (Path cfg)),
       write_ok = True\<rparr>)"
  by (simp add: sendREQAndGetMeta_def Let_def sendREQ_loop_silent)

lemma sendREQAndGetMeta_bound:
  "length (sent (snd (sendREQAndGetMeta cfg n)))
     \<le> length (sent n) + nat (if Retries cfg \<le> 0 then 3 else Retries cfg)"
  using sendREQ_loop_bound [of cfg 1 "if Retries cfg \<le> 0 then 3 else Retries cfg" n]
  by (simp add: sendREQAndGetMeta_def Let_def)

lemma receiveUntilIdleOrEOF_EOF:
  "receiveUntilIdleOrEOF L cb m [Datagram CtrlEOF] st = (Returned True, [], st)"
  by (simp add: receiveUntilIdleOrEOF_def processPacket_EOF)

lemma receiveData_silent:
  assumes "mTotal meta \<noteq> 0"
  shows "receiveData L cfg cb meta policy \<lparr>inbox = [Datagram CtrlEOF], sent = [], write_ok = True\<rparr> =
     (Failed NackExhausted,
      \<lparr>inbox = [],
       sent = replicate (nat (if Retries cfg \<le> 0 then 3 else Retries cfg))
                (CtrlNACK (nackList cb (computeMissing (mTotal meta) Map.empty))),
       write_ok = True\<rparr>,
      \<lparr>Drop = policy, recv = Map.empty, bytesRecv = 0, segsRecv = 0, events = []\<rparr>)"
proof -
  from assms have "unat (mTotal meta) \<noteq> 0"
    by (simp add: unat_eq_0)
  then have m: "computeMissing (mTotal meta) Map.empty \<noteq> []"
    by (simp add: computeMissing_empty)
  show ?thesis
    using runNackRounds_loop_silent [of meta "\<lparr>Drop = policy, recv = Map.empty, bytesRecv = 0, segsRecv = 0, events = []\<rparr>"
        L cb "if Retries cfg \<le> 0 then 3 else Retries cfg" 0 "[]"] m
    by (simp add: receiveData_def Let_def receiveUntilIdleOrEOF_EOF runNackRounds_def)
qed

lemma receiveData_bound:
  "length (sent (fst (snd (receiveData L cfg cb meta policy n))))
     \<le> length (sent n) + nat (if Retries cfg \<le> 0 then 3 else Retries cfg)"
proof -
  define st where "st = \<lparr>Drop = policy, recv = Map.empty, bytesRecv = 0, segsRecv = 0, events = []\<rparr>"
  define m where "m = (if Retries cfg \<le> 0 then 3 else Retries cfg)"
  define r where "r = receiveUntilIdleOrEOF L cb m (inbox n) st"
  define n1 where "n1 = n\<lparr>inbox := fst (snd r)\<rparr>"
  have eq: "receiveData L cfg cb meta policy n =
      (case fst r of
         Returned eof \<Rightarrow> runNackRounds L cb meta m n1 (snd (snd r))
       | Failed e \<Rightarrow> (Failed e, n1, snd (snd r))
       | Panicked \<Rightarrow> (Panicked, n1, snd (snd r)))"
    by (simp only: receiveData_def Let_def st_def m_def r_def n1_def)
  have b: "length (sent (fst (snd (runNackRounds L cb meta m n1 (snd (snd r)))))) \<le> length (sent n) + nat m"
    using runNackRounds_loop_bound [of L cb meta m 0 n1 "snd (snd r)"]
    by (simp add: runNackRounds_def n1_def)
  show ?thesis
    unfolding eq m_def [symmetric] using b
    by (auto simp: n1_def split: attempt.split)
qed

text \<open>
  C7 (as stated). With Retries = 1 and a server that never answers, the client sends one
  REQ and gives up; after an initial phase that ends with EOF and one segment missing, it
  sends one NACK and gives up. Fewer than the three attempts and three rounds of the
  claim.
\<close>

theorem retries_floor_counterexample:
  "sendREQAndGetMeta \<lparr>Path = bytes_of ''f'', Retries = 1, OutputPath = []\<rparr> \<lparr>inbox = [], sent = [], write_ok = True\<rparr> =
     (Failed MetaExhausted, \<lparr>inbox = [], sent = [CtrlREQ (bytes_of ''f'')], write_ok = True\<rparr>) \<and>
   fst (receiveData stdlib0 \<lparr>Path = bytes_of ''f'', Retries = 1, OutputPath = []\<rparr> \<lparr>OnLog = True, OnProgress = True\<rparr>
          \<lparr>mFilename = bytes_of ''f'', mTotal = 1, mSize = 1, mSHA256 = [], mChunk = 1024\<rparr> None
          \<lparr>inbox = [Datagram CtrlEOF], sent = [], write_ok = True\<rparr>) = Failed NackExhausted \<and>
   sent (fst (snd (receiveData stdlib0 \<lparr>Path = bytes_of ''f'', Retries = 1, OutputPath = []\<rparr> \<lparr>OnLog = True, OnProgress = True\<rparr>
          \<lparr>mFilename = bytes_of ''f'', mTotal = 1, mSize = 1, mSHA256 = [], mChunk = 1024\<rparr> None
          \<lparr>inbox = [Datagram CtrlEOF], sent = [], write_ok = True\<rparr>))) = [CtrlNACK [0]]"
proof -
  have m: "computeMissing 1 Map.empty = [0]"
    by (simp add: computeMissing_empty)
  show ?thesis
    by (simp add: sendREQAndGetMeta_silent receiveData_silent m nackList_def)
qed

text \<open>
  C7 (amended). The number of REQ attempts of phase 1 and the number of NACK rounds of
  phase 3 are both Retries when Retries is positive, and 3 only when Retries is zero or
  negative. On a silent network exactly that many REQ frames are written before the
  transfer fails; after an initial phase ended by EOF with segments missing and no
  retransmission, exactly that many NACK frames are written before it fails; and on no
  network more than that many are written.
\<close>

theorem retries_budget:
  "sendREQAndGetMeta cfg \<lparr>inbox = [], sent = [], write_ok = True\<rparr> =
     (Failed MetaExhausted,
      \<lparr>inbox = [],
       sent = replicate (nat (if Retries cfg \<le> 0 then 3 else Retries cfg)) (CtrlREQ (Path cfg)),
       write_ok = True\<rparr>) \<and>
   length (sent (snd (sendREQAndGetMeta cfg n)))
     \<le> length (sent n) + nat (if Retries cfg \<le> 0 then 3 else Retries cfg) \<and>
   (mTotal meta \<noteq> 0 \<longrightarrow>
      receiveData L cfg cb meta policy \<lparr>inbox = [Datagram CtrlEOF], sent = [], write_ok = True\<rparr> =
        (Failed NackExhausted,
         \<lparr>inbox = [],
          sent = replicate (nat (if Retries cfg \<le> 0 then 3 else Retries cfg))
                   (CtrlNACK (nackList cb (computeMissing (mTotal meta) Map.empty))),
          write_ok = True\<rparr>,
         \<lparr>Drop = policy, recv = Map.empty, bytesRecv = 0, segsRecv = 0, events = []\<rparr>)) \<and>
   length (sent (fst (snd (receiveData L cfg cb meta policy n))))
     \<le> length (sent n) + nat (if Retries cfg \<le> 0 then 3 else Retries cfg)"
  using sendREQAndGetMeta_silent [of cfg] sendREQAndGetMeta_bound [of cfg n]
    receiveData_silent [of meta L cfg cb policy] receiveData_bound [of L cfg cb meta policy n]
  by simp

text \<open>Five REQ for Retries = 5, three for Retries = 0, two REQ and two NACK for Retries = 2.\<close>

theorem retries_budget_witness:
  "length (sent (snd (sendREQAndGetMeta \<lparr>Path = bytes_of ''f'', Retries = 5, OutputPath = []\<rparr>
      \<lparr>inbox = [], sent = [], write_ok = True\<rparr>))) = 5 \<and>
   length (sent (snd (sendREQAndGetMeta \<lparr>Path = bytes_of ''f'', Retries = 0, OutputPath = []\<rparr>
      \<lparr>inbox = [], sent = [], write_ok = True\<rparr>))) = 3 \<and>
   length (sent (snd (sendREQAndGetMeta \<lparr>Path = bytes_of ''f'', Retries = 2, OutputPath = []\<rparr>
      \<lparr>inbox = [], sent = [], write_ok = True\<rparr>))) = 2 \<and>
   sent (fst (snd (receiveData stdlib0 \<lparr>Path = bytes_of ''f'', Retries = 2, OutputPath = []\<rparr> \<lparr>OnLog = True, OnProgress = True\<rparr>
          \<lparr>mFilename = bytes_of ''f'', mTotal = 2, mSize = 1025, mSHA256 = [], mChunk = 1024\<rparr> None
          \<lparr>inbox = [Datagram CtrlEOF], sent = [], write_ok = True\<rparr>))) = [CtrlNACK [0, 1], CtrlNACK [0, 1]]"
proof -
  have m: "computeMissing 2 Map.empty = [0, 1]"
    by (simp add: computeMissing_empty upt_conv_Cons)
  let ?n = "\<lparr>inbox = [], sent = [], write_ok = True\<rparr>"
  let ?m = "\<lparr>mFilename = bytes_of ''f'', mTotal = 2, mSize = 1025, mSHA256 = [], mChunk = 1024\<rparr>"
  let ?cb = "\<lparr>OnLog = True, OnProgress = True\<rparr>"
  have a: "sendREQAndGetMeta \<lparr>Path = bytes_of ''f'', Retries = 5, OutputPath = []\<rparr> ?n =
      (Failed MetaExhausted, \<lparr>inbox = [], sent = replicate 5 (CtrlREQ (bytes_of ''f'')), write_ok = True\<rparr>)"
    using retries_budget [where cfg = "\<lparr>Path = bytes_of ''f'', Retries = 5, OutputPath = []\<rparr>"
      and n = ?n and meta = ?m and L = stdlib0 and cb = ?cb and policy = None]
    by simp
  have b: "sendREQAndGetMeta \<lparr>Path = bytes_of ''f'', Retries = 0, OutputPath = []\<rparr> ?n =
      (Failed MetaExhausted, \<lparr>inbox = [], sent = replicate 3 (CtrlREQ (bytes_of ''f'')), write_ok = True\<rparr>)"
    using retries_budget [where cfg = "\<lparr>Path = bytes_of ''f'', Retries = 0, OutputPath = []\<rparr>"
      and n = ?n and meta = ?m and L = stdlib0 and cb = ?cb and policy = None]
    by simp
  have c: "sendREQAndGetMeta \<lparr>Path = bytes_of ''f'', Retries = 2, OutputPath = []\<rparr> ?n =
      (Failed MetaExhausted, \<lparr>inbox = [], sent = replicate 2 (CtrlREQ (bytes_of ''f'')), write_ok = True\<rparr>)"
   and d: "receiveData stdlib0 \<lparr>Path = bytes_of ''f'', Retries = 2, OutputPath = []\<rparr> ?cb ?m None
        \<lparr>inbox = [Datagram CtrlEOF], sent = [], write_ok = True\<rparr> =
      (Failed NackExhausted, \<lparr>inbox = [], sent = replicate 2 (CtrlNACK [0, 1]), write_ok = True\<rparr>,
       \<lparr>Drop = None, recv = Map.empty, bytesRecv = 0, segsRecv = 0, events = []\<rparr>)"
    using retries_budget [where cfg = "\<lparr>Path = bytes_of ''f'', Retries = 2, OutputPath = []\<rparr>"
      and n = ?n and meta = ?m and L = stdlib0 and cb = ?cb and policy = None]
    by (simp_all add: m nackList_def)
  show ?thesis
    unfolding a b c d by (simp add: numeral_2_eq_2)
qed

section \<open>Properties of assembly and verification\<close>











section \<open>Properties of the server\<close>

lemma handleREQ_invalid:
  assumes "filepath_Clean L path = bytes_of ''.'' \<or> filepath_Clean L path = bytes_of ''..'' \<or>
           HasPrefix (filepath_Clean L path) (bytes_of ''..'')"
  shows "handleREQ L w logAppend addr path sv = Inr (sv\<lparr>wire := wire sv @ [(addr, CtrlERR msgInvalidPath)]\<rparr>)"
  using assms by (auto simp: handleREQ_def Let_def WriteToUDP_def)

lemma length_msgInvalidPath: "length msgInvalidPath = 17"
  by (simp add: msgInvalidPath_def bytes_of_def)

lemma length_CtrlREQ: "length (CtrlREQ path) = 6 + length path"
  by (simp add: CtrlREQ_def packREQ_def Let_def)

lemma IsCtrl_CtrlREQ: "IsCtrl (CtrlREQ path)"
  by (simp add: IsCtrl_def CtrlREQ_def packREQ_def Let_def ctrlHeader_def ctrlMagic0_def ctrlMagic1_def)

lemma tag_strings: "TypeERR \<noteq> TypeMETA" "TypeERR \<noteq> TypeEOF" "TypeERR \<noteq> TypeREQ"
  by (simp_all add: TypeERR_def TypeMETA_def TypeEOF_def TypeREQ_def)

lemma IsCtrl_CtrlERR: "IsCtrl (CtrlERR msg)"
  by (simp add: IsCtrl_def CtrlERR_def packERR_def Let_def ctrlHeader_def ctrlMagic0_def ctrlMagic1_def)

lemma serveDatagram_REQ:
  assumes "length path \<le> 4090"
  shows "serveDatagram L w entries logAppend addr (CtrlREQ path) sv = handleREQ L w logAppend addr path sv"
proof -
  have t: "take 4096 (CtrlREQ path) = CtrlREQ path"
    using assms by (simp add: length_CtrlREQ)
  have d: "DecodeCtrl (CtrlREQ path) = Inr (TypeREQ, Req path)"
    using assms by (intro DecodeCtrl_CtrlREQ) simp
  show ?thesis
    by (simp add: serveDatagram_def Let_def t IsCtrl_CtrlREQ dispatchCtrl_def d)
qed

text \<open>
  C6. For every REQ whose cleaned path is \<open>.\<close>, is \<open>..\<close> or starts with \<open>..\<close>, the
  server answers with ERR and the message for an invalid path, and transfers nothing: the
  handler returns the state with that one frame written to the peer, so the map of active
  transfers and the metrics are as before and no META, DATA or EOF frame is written. The
  frame is a control frame that decodes as ERR. The same holds from the datagram on, for a
  REQ that fits the receive buffer of 4096 bytes.
\<close>

theorem handleREQ_path_sanitization:
  "filepath_Clean L path = bytes_of ''.'' \<or> filepath_Clean L path = bytes_of ''..'' \<or>
     HasPrefix (filepath_Clean L path) (bytes_of ''..'') \<Longrightarrow>
   handleREQ L w logAppend addr path sv =
     Inr (sv\<lparr>wire := wire sv @ [(addr, CtrlERR msgInvalidPath)]\<rparr>) \<and>
   (\<forall>sv'. handleREQ L w logAppend addr path sv = Inr sv' \<longrightarrow>
      activeTransfers sv' = activeTransfers sv \<and> mtr sv' = mtr sv \<and>
      wire sv' = wire sv @ [(addr, CtrlERR msgInvalidPath)]) \<and>
   DecodeCtrl (CtrlERR msgInvalidPath) = Inr (TypeERR, ErrMsg msgInvalidPath) \<and>
   IsCtrl (CtrlERR msgInvalidPath) \<and> TypeERR \<noteq> TypeMETA \<and> TypeERR \<noteq> TypeEOF \<and>
   (length path \<le> 4090 \<longrightarrow>
      serveDatagram L w entries logAppend addr (CtrlREQ path) sv =
        Inr (sv\<lparr>wire := wire sv @ [(addr, CtrlERR msgInvalidPath)]\<rparr>))"
proof -
  assume a: "filepath_Clean L path = bytes_of ''.'' \<or> filepath_Clean L path = bytes_of ''..'' \<or>
     HasPrefix (filepath_Clean L path) (bytes_of ''..'')"
  have d: "DecodeCtrl (CtrlERR msgInvalidPath) = Inr (TypeERR, ErrMsg msgInvalidPath)"
    by (rule DecodeCtrl_CtrlERR) (simp add: length_msgInvalidPath)
  show ?thesis
    by (simp add: handleREQ_invalid [OF a] d IsCtrl_CtrlERR tag_strings serveDatagram_REQ)
qed

text \<open>The paths \<open>..\<close>, \<open>../x\<close> and \<open>.\<close> of the specification.\<close>

theorem handleREQ_path_sanitization_witness:
  "handleREQ stdlib0 os0 True (bytes_of ''10.0.0.2:5000'') (bytes_of ''..'') server0 =
     Inr (server0\<lparr>wire := [(bytes_of ''10.0.0.2:5000'', CtrlERR msgInvalidPath)]\<rparr>) \<and>
   handleREQ stdlib0 os0 True (bytes_of ''10.0.0.2:5000'') (bytes_of ''../x'') server0 =
     Inr (server0\<lparr>wire := [(bytes_of ''10.0.0.2:5000'', CtrlERR msgInvalidPath)]\<rparr>) \<and>
   serveDatagram stdlib0 os0 [] True (bytes_of ''10.0.0.2:5000'') (CtrlREQ (bytes_of ''.'')) server0 =
     Inr (server0\<lparr>wire := [(bytes_of ''10.0.0.2:5000'', CtrlERR msgInvalidPath)]\<rparr>)"
proof -
  let ?a = "bytes_of ''10.0.0.2:5000''"
  have c: "filepath_Clean stdlib0 p = p" for p
    by (simp add: stdlib0_def)
  have p2: "HasPrefix (bytes_of ''../x'') (bytes_of ''..'')"
    by (simp add: HasPrefix_def bytes_of_def)
  have w0: "wire server0 = []"
    by (simp add: server0_def)
  have 1: "handleREQ stdlib0 os0 True ?a (bytes_of ''..'') server0 =
      Inr (server0\<lparr>wire := [(?a, CtrlERR msgInvalidPath)]\<rparr>)"
    using handleREQ_path_sanitization [where L = stdlib0 and path = "bytes_of ''..''" and w = os0
        and logAppend = True and addr = ?a and sv = server0 and entries = "[]"]
    by (auto simp: c w0)
  have 2: "handleREQ stdlib0 os0 True ?a (bytes_of ''../x'') server0 =
      Inr (server0\<lparr>wire := [(?a, CtrlERR msgInvalidPath)]\<rparr>)"
    using handleREQ_path_sanitization [where L = stdlib0 and path = "bytes_of ''../x''" and w = os0
        and logAppend = True and addr = ?a and sv = server0 and entries = "[]"] p2
    by (auto simp: c w0)
  have 3: "serveDatagram stdlib0 os0 [] True ?a (CtrlREQ (bytes_of ''.'')) server0 =
      Inr (server0\<lparr>wire := [(?a, CtrlERR msgInvalidPath)]\<rparr>)"
    using handleREQ_path_sanitization [where L = stdlib0 and path = "bytes_of ''.''" and w = os0
        and logAppend = True and addr = ?a and sv = server0 and entries = "[]"]
    by (simp add: c w0 bytes_of_def)
  from 1 2 3 show ?thesis by simp
qed

declare readChunks.simps [simp del]

lemma readChunks_single: "readChunks [0x61] = [[0x61]]"
  by (subst readChunks.simps, subst readChunks.simps) (simp add: ChunkSize_def)

lemma loadFile_example:
  "loadFile stdlib0 os1 (bytes_of ''./a.txt'') =
     Inr \<lparr>feMeta = \<lparr>mFilename = bytes_of ''a.txt'', mTotal = 1, mSize = 1,
                      mSHA256 = SHA256FileChunks stdlib0 [[0x61]], mChunk = 1024\<rparr>,
          feChunks = [[0x61]]\<rparr>"
  by (simp add: loadFile_def os1_def readChunks_single Let_def) (simp add: stdlib0_def bytes_of_def ChunkSize_def)

text \<open>
  A REQ for a file that exists registers the transfer and writes META, the DATA packet
  and EOF.
\<close>

lemma handleREQ_transfer_example:
  "handleREQ stdlib0 os1 True (bytes_of ''peer'') (bytes_of ''a.txt'') server0 =
     Inr (server0\<lparr>
       activeTransfers := [bytes_of ''peer'' \<mapsto>
          \<lparr>feMeta = \<lparr>mFilename = bytes_of ''a.txt'', mTotal = 1, mSize = 1,
                      mSHA256 = SHA256FileChunks stdlib0 [[0x61]], mChunk = 1024\<rparr>,
           feChunks = [[0x61]]\<rparr>],
       mtr := \<lparr>BytesSent = 19, SegmentsSent = 1, NacksReceived = 0, Retransmissions = 0, ActiveClients = 0\<rparr>,
       wire := [(bytes_of ''peer'', CtrlMETA \<lparr>mFilename = bytes_of ''a.txt'', mTotal = 1, mSize = 1,
                      mSHA256 = SHA256FileChunks stdlib0 [[0x61]], mChunk = 1024\<rparr>),
                (bytes_of ''peer'', packet_a),
                (bytes_of ''peer'', CtrlEOF)],
       srvlog := [LogMETA (bytes_of ''peer'') 1 1, LogEOF (bytes_of ''peer'') 1]\<rparr>)"
proof -
  have j: "filepath_Join stdlib0 (baseDir server0) (bytes_of ''a.txt'') = bytes_of ''./a.txt''"
    by (simp add: stdlib0_def server0_def bytes_of_def)
  have c: "filepath_Clean stdlib0 (bytes_of ''a.txt'') = bytes_of ''a.txt''"
    by (simp add: stdlib0_def)
  have np: "\<not> (bytes_of ''a.txt'' = bytes_of ''.'' \<or> bytes_of ''a.txt'' = bytes_of ''..'' \<or>
      HasPrefix (bytes_of ''a.txt'') (bytes_of ''..''))"
    by (simp add: bytes_of_def HasPrefix_def)
  have p: "dataPacket 0 (Suc 0) [0x61] = packet_a"
    by (simp add: dataPacket_def packet_a_def PackHeader_def CRC32_a PutUint32_def PutUint16_def ProtocolVersion_def)
  show ?thesis
    unfolding handleREQ_def Let_def c j loadFile_example
    by (simp add: np sendChunk_def p WriteToUDP_def Let_def server0_def)
      (simp add: packet_a_def)
qed

end
